theory Spec2Isabelle
  imports Complex_Main "HOL-Library.Word"
begin

section \<open>JavaScript numbers\<close>

text \<open>
  Every number of the program is a JavaScript \<open>number\<close>: an IEEE-754 double. A finite
  double is a real of the form \<open>m * 2^e\<close> with \<open>|m| < 2^53\<close>; each arithmetic operation
  returns the exact real result rounded to the nearest such value, ties going to the even
  significand. \<open>round64\<close> is that rounding. The exponent range is taken as unbounded:
  overflow to an infinity and subnormal results are outside the model, and so is the sign of
  zero. \<open>NaN\<close> is kept, because the program produces it from \<open>undefined\<close>. A number of
  the model is thus \<open>NaN\<close> or finite (\<open>Num\<close>): a parameter that is an infinity is not
  covered, and every result below that speaks of \<open>Num c\<close> speaks of a finite number.
\<close>

definition rne :: "real \<Rightarrow> int" where
  "rne y = (let f = \<lfloor>y\<rfloor>; r = y - of_int f in
     if r < 1/2 then f else if 1/2 < r then f + 1 else if even f then f else f + 1)"

definition expo :: "real \<Rightarrow> int" where
  "expo x = \<lfloor>log 2 \<bar>x\<bar>\<rfloor>"

definition round64 :: "real \<Rightarrow> real" where
  "round64 x = (if x = 0 then 0 else
     let q = 2 powr of_int (expo x - 52) in of_int (rne (x / q)) * q)"

datatype jsnum = NaN | Num real

text \<open>A decimal literal of the source denotes the double nearest to it.\<close>

definition lit :: "real \<Rightarrow> jsnum" where
  "lit x = Num (round64 x)"

fun jadd :: "jsnum \<Rightarrow> jsnum \<Rightarrow> jsnum" where
  "jadd (Num a) (Num b) = Num (round64 (a + b))"
| "jadd _ _ = NaN"

fun jsub :: "jsnum \<Rightarrow> jsnum \<Rightarrow> jsnum" where
  "jsub (Num a) (Num b) = Num (round64 (a - b))"
| "jsub _ _ = NaN"

fun jmul :: "jsnum \<Rightarrow> jsnum \<Rightarrow> jsnum" where
  "jmul (Num a) (Num b) = Num (round64 (a * b))"
| "jmul _ _ = NaN"

text \<open>
  The program divides by the constants 2, 12 and 127 only; a quotient by zero (an infinity,
  or \<open>NaN\<close> for \<open>0/0\<close>) is outside the finite numbers modelled here.
\<close>

fun jdiv :: "jsnum \<Rightarrow> jsnum \<Rightarrow> jsnum" where
  "jdiv (Num a) (Num b) = (if b = 0 then NaN else Num (round64 (a / b)))"
| "jdiv _ _ = NaN"

text \<open>Comparisons with \<open>NaN\<close> are false, also \<open>NaN == NaN\<close>.\<close>

fun jlt :: "jsnum \<Rightarrow> jsnum \<Rightarrow> bool" where
  "jlt (Num a) (Num b) = (a < b)"
| "jlt _ _ = False"

fun jle :: "jsnum \<Rightarrow> jsnum \<Rightarrow> bool" where
  "jle (Num a) (Num b) = (a \<le> b)"
| "jle _ _ = False"

fun jgt :: "jsnum \<Rightarrow> jsnum \<Rightarrow> bool" where
  "jgt (Num a) (Num b) = (b < a)"
| "jgt _ _ = False"

fun jeq :: "jsnum \<Rightarrow> jsnum \<Rightarrow> bool" where
  "jeq (Num a) (Num b) = (a = b)"
| "jeq _ _ = False"

fun Math_max :: "jsnum \<Rightarrow> jsnum \<Rightarrow> jsnum" where
  "Math_max (Num a) (Num b) = Num (max a b)"
| "Math_max _ _ = NaN"

fun Math_min :: "jsnum \<Rightarrow> jsnum \<Rightarrow> jsnum" where
  "Math_min (Num a) (Num b) = Num (min a b)"
| "Math_min _ _ = NaN"

fun Math_floor :: "jsnum \<Rightarrow> jsnum" where
  "Math_floor (Num a) = Num (of_int \<lfloor>a\<rfloor>)"
| "Math_floor NaN = NaN"

text \<open>\<open>Math.pow(2, x)\<close>, taken as correctly rounded.\<close>

fun Math_pow2 :: "jsnum \<Rightarrow> jsnum" where
  "Math_pow2 (Num a) = Num (round64 (2 powr a))"
| "Math_pow2 NaN = NaN"

text \<open>A value that may be \<open>undefined\<close> (\<open>None\<close>) becomes \<open>NaN\<close> in arithmetic.\<close>

fun toNumber :: "jsnum option \<Rightarrow> jsnum" where
  "toNumber (Some n) = n"
| "toNumber None = NaN"

section \<open>Object literals and property reads\<close>

text \<open>
  The tables of the program are object literals read with \<open>obj[k]\<close> for a string \<open>k\<close> that
  comes from the caller. Such a read finds the literal's own properties, and then the
  properties every object inherits from \<open>Object.prototype\<close>: its methods, and the accessor
  \<open>__proto__\<close>. An inherited value is a function or an object, so it is truthy and \<open>||\<close>
  keeps it; only \<open>undefined\<close> makes \<open>||\<close> take its right operand. The names are those of a
  standard environment, in which no script has added a property to \<open>Object.prototype\<close>.
\<close>

definition objectPrototypeNames :: "string list" where
  "objectPrototypeNames =
     [''constructor'', ''hasOwnProperty'', ''isPrototypeOf'', ''propertyIsEnumerable'',
      ''toLocaleString'', ''toString'', ''valueOf'', ''__proto__'',
      ''__defineGetter__'', ''__defineSetter__'', ''__lookupGetter__'', ''__lookupSetter__'']"

datatype 'a propval = Own 'a | Inherited | Undefined

definition getProp :: "(string \<times> 'a) list \<Rightarrow> string \<Rightarrow> 'a propval" where
  "getProp obj k =
     (case map_of obj k of
        Some v \<Rightarrow> Own v
      | None \<Rightarrow> if k \<in> set objectPrototypeNames then Inherited else Undefined)"

definition orElse :: "'a propval \<Rightarrow> 'a propval \<Rightarrow> 'a propval" where
  "orElse a b = (case a of Undefined \<Rightarrow> b | _ \<Rightarrow> a)"

section \<open>Data model\<close>

record GenerationParams =
  genre :: string
  creativity :: jsnum
  tempo :: jsnum
  key :: string
  duration :: jsnum

record Note =
  pitch :: jsnum
  note_duration :: jsnum
  velocity :: jsnum
  time :: jsnum

record Melody =
  "notes" :: "Note list"
  melody_tempo :: jsnum
  melody_key :: string
  melody_genre :: string

datatype error = TypeError | RangeError

record settings =
  jumpRange :: jsnum
  rhythmVariety :: jsnum

section \<open>Array reads\<close>

text \<open>\<open>xs[i]\<close>: \<open>undefined\<close> unless \<open>i\<close> is an index of the array.\<close>

definition elemAt :: "real list \<Rightarrow> jsnum \<Rightarrow> jsnum option" where
  "elemAt xs i =
     (case i of
        NaN \<Rightarrow> None
      | Num r \<Rightarrow>
          if r = of_int \<lfloor>r\<rfloor> \<and> 0 \<le> r \<and> r < real (length xs)
          then Some (Num (xs ! nat \<lfloor>r\<rfloor>)) else None)"

fun indexFrom :: "real list \<Rightarrow> real \<Rightarrow> nat \<Rightarrow> int" where
  "indexFrom [] p n = - 1"
| "indexFrom (x # xs) p n = (if x = p then int n else indexFrom xs p (Suc n))"

text \<open>\<open>xs.indexOf(v)\<close> compares with \<open>===\<close>: \<open>undefined\<close> and \<open>NaN\<close> are never found.\<close>

definition indexOf :: "real list \<Rightarrow> jsnum option \<Rightarrow> int" where
  "indexOf xs v = (case v of Some (Num p) \<Rightarrow> indexFrom xs p 0 | _ \<Rightarrow> - 1)"

section \<open>The generator (first version of the module)\<close>

text \<open>
  \<open>Math.random()\<close> is a stream of draws \<open>u 0, u 1, \<dots>\<close>, each a double in \<open>[0, 1)\<close>; the
  position in the stream is passed along. Draw 0 sets the artificial delay, and each note
  takes four draws.
\<close>

definition delayMs :: "(nat \<Rightarrow> real) \<Rightarrow> jsnum" where
  "delayMs u = jadd (Num 2000) (jmul (Num (u 0)) (Num 2000))"

definition scalePatterns :: "(string \<times> real list) list" where
  "scalePatterns =
     [(''C'', [60, 62, 64, 65, 67, 69, 71, 72]),
      (''G'', [67, 69, 71, 72, 74, 76, 78, 79]),
      (''D'', [62, 64, 66, 67, 69, 71, 73, 74]),
      (''A'', [69, 71, 73, 74, 76, 78, 80, 81]),
      (''Am'', [69, 71, 72, 74, 76, 77, 79, 81]),
      (''Em'', [64, 66, 67, 69, 71, 72, 74, 76]),
      (''Dm'', [62, 64, 65, 67, 69, 70, 72, 74])]"

definition genreSettings :: "(string \<times> settings) list" where
  "genreSettings =
     [(''classical'', \<lparr>jumpRange = Num 3, rhythmVariety = lit (3/10)\<rparr>),
      (''jazz'', \<lparr>jumpRange = Num 5, rhythmVariety = lit (7/10)\<rparr>),
      (''electronic'', \<lparr>jumpRange = Num 6, rhythmVariety = lit (8/10)\<rparr>),
      (''ambient'', \<lparr>jumpRange = Num 2, rhythmVariety = lit (2/10)\<rparr>),
      (''minimalist'', \<lparr>jumpRange = Num 1, rhythmVariety = lit (1/10)\<rparr>),
      (''baroque'', \<lparr>jumpRange = Num 4, rhythmVariety = lit (4/10)\<rparr>)]"

text \<open>
  \<open>settings.jumpRange\<close> and \<open>settings.rhythmVariety\<close>: a field of the table entry; on an
  inherited function or object the property is missing and the read gives \<open>undefined\<close>,
  which the arithmetic turns into \<open>NaN\<close>; on \<open>undefined\<close> the read throws.
\<close>

definition readField :: "(settings \<Rightarrow> jsnum) \<Rightarrow> settings propval \<Rightarrow> error + jsnum" where
  "readField f s =
     (case s of Own e \<Rightarrow> Inr (f e) | Inherited \<Rightarrow> Inr NaN | Undefined \<Rightarrow> Inl TypeError)"

text \<open>
  \<open>scale[Math.floor(scale.length / 2)]\<close>. An inherited function or object has no property
  named by a number (or by \<open>NaN\<close>), whatever its \<open>length\<close> is, so the read is \<open>undefined\<close>.
\<close>

definition middleOf :: "real list propval \<Rightarrow> error + jsnum option" where
  "middleOf scale =
     (case scale of
        Own xs \<Rightarrow> Inr (elemAt xs (Math_floor (jdiv (Num (real (length xs))) (Num 2))))
      | Inherited \<Rightarrow> Inr None
      | Undefined \<Rightarrow> Inl TypeError)"

text \<open>
  One pass of the loop body, from stream position \<open>k\<close>: the note pushed and the new
  \<open>lastPitch\<close>. \<open>scale.indexOf\<close> exists on an array only: on an inherited function or
  object it is \<open>undefined\<close>, and calling it throws a \<open>TypeError\<close>.
\<close>

definition noteStep ::
  "(nat \<Rightarrow> real) \<Rightarrow> real list propval \<Rightarrow> settings propval \<Rightarrow> jsnum \<Rightarrow> nat \<Rightarrow> jsnum \<Rightarrow> jsnum option
     \<Rightarrow> error + (Note \<times> jsnum option)" where
  "noteStep u scale settings creat k currentTime lastPitch =
     (case readField jumpRange settings of
        Inl e \<Rightarrow> Inl e
      | Inr jr \<Rightarrow>
     (case scale of
        Undefined \<Rightarrow> Inl TypeError
      | Inherited \<Rightarrow> Inl TypeError
      | Own xs \<Rightarrow>
     (case readField rhythmVariety settings of
        Inl e \<Rightarrow> Inl e
      | Inr rv \<Rightarrow>
          let pitchVariation =
                Math_floor (jmul (jmul (jmul (jsub (Num (u k)) (Num (1/2))) (Num 2)) jr) creat);
              found = indexOf xs lastPitch;
              scaleIndex0 = (if found = - 1 then 0 else found);
              scaleIndex =
                Math_max (Num 0)
                  (Math_min (jsub (Num (real (length xs))) (Num 1)) (jadd (Num (of_int scaleIndex0)) pitchVariation));
              pitch' = jadd (toNumber (elemAt xs scaleIndex))
                        (if jgt (Num (u (k + 1))) (lit (8/10)) then Num 12 else Num 0);
              baseDuration = Num (1/4);
              rhythmFactor =
                jadd (Num 1) (jmul (jmul (jsub (Num (u (k + 2))) (Num (1/2))) rv) creat);
              dur = Math_max (Num (1/8)) (jmul baseDuration rhythmFactor);
              vel = jadd (Num 60) (jmul (jmul (Num (u (k + 3))) (Num 40)) creat)
          in Inr (\<lparr>pitch = pitch', note_duration = dur,
                    velocity = Math_floor vel, time = currentTime\<rparr>,
                  Some pitch'))))"

text \<open>
  The \<open>for\<close> loop. The counter \<open>i\<close> is exact (a double counts exactly up to \<open>2^53\<close>) and the
  array is a list without a capacity limit.
\<close>

function genLoop ::
  "(nat \<Rightarrow> real) \<Rightarrow> real list propval \<Rightarrow> settings propval \<Rightarrow> jsnum \<Rightarrow> jsnum \<Rightarrow> nat \<Rightarrow> nat
     \<Rightarrow> jsnum \<Rightarrow> jsnum option \<Rightarrow> Note list \<Rightarrow> error + Note list" where
  "genLoop u scale settings creat noteCount i k currentTime lastPitch acc =
     (if jlt (Num (real i)) noteCount then
        (case noteStep u scale settings creat k currentTime lastPitch of
           Inl e \<Rightarrow> Inl e
         | Inr (note, lastPitch') \<Rightarrow>
             genLoop u scale settings creat noteCount (Suc i) (k + 4)
               (jadd currentTime (note_duration note)) lastPitch' (acc @ [note]))
      else Inr acc)"
  by pat_completeness auto
termination
proof (relation "measure (\<lambda>(u, scale, settings, creat, noteCount, i, rest).
                   case noteCount of NaN \<Rightarrow> 0 | Num c \<Rightarrow> nat \<lceil>c\<rceil> - i)")
  show "wf (measure (\<lambda>(u, scale, settings, creat, noteCount, i, rest).
                   case noteCount of NaN \<Rightarrow> 0 | Num c \<Rightarrow> nat \<lceil>c\<rceil> - i))"
    by simp
next
  fix u :: "nat \<Rightarrow> real" and scale :: "real list propval" and settings :: "settings propval"
    and creat noteCount :: jsnum and i k :: nat and currentTime :: jsnum
    and lastPitch :: "jsnum option" and acc :: "Note list"
    and x2 :: "Note \<times> jsnum option" and x y
  assume "jlt (Num (real i)) noteCount"
  then obtain c where c: "noteCount = Num c" "real i < c"
    by (cases noteCount) simp_all
  then have "i < nat \<lceil>c\<rceil>" by linarith
  then show "((u, scale, settings, creat, noteCount, Suc i, k + 4,
                jadd currentTime (note_duration x), y, acc @ [x]),
              (u, scale, settings, creat, noteCount, i, k, currentTime, lastPitch, acc))
             \<in> measure (\<lambda>(u, scale, settings, creat, noteCount, i, rest).
                   case noteCount of NaN \<Rightarrow> 0 | Num c \<Rightarrow> nat \<lceil>c\<rceil> - i)"
    using c by simp
qed

definition generateMelody :: "(nat \<Rightarrow> real) \<Rightarrow> GenerationParams \<Rightarrow> error + Melody" where
  "generateMelody u params =
     (let noteCount = jmul (duration params) (Num 4);
          scale = orElse (getProp scalePatterns (key params)) (getProp scalePatterns ''C'');
          settings = orElse (getProp genreSettings (genre params))
                       (getProp genreSettings ''classical'')
      in case middleOf scale of
           Inl e \<Rightarrow> Inl e
         | Inr lastPitch \<Rightarrow>
             (case genLoop u scale settings (creativity params) noteCount 0 1 (Num 0) lastPitch [] of
                Inl e \<Rightarrow> Inl e
              | Inr ns \<Rightarrow>
                  Inr \<lparr>notes = ns, melody_tempo = tempo params, melody_key = key params,
                       melody_genre = genre params\<rparr>))"


section \<open>The generator (second version of the module)\<close>

text \<open>
  The module exists in two versions. Their generators are translated separately; the
  helpers above, which give the meaning of JavaScript expressions, are shared.
\<close>

definition scalePatterns_001 :: "(string \<times> real list) list" where
  "scalePatterns_001 =
     [(''C'', [60, 62, 64, 65, 67, 69, 71, 72]),
      (''G'', [67, 69, 71, 72, 74, 76, 78, 79]),
      (''D'', [62, 64, 66, 67, 69, 71, 73, 74]),
      (''A'', [69, 71, 73, 74, 76, 78, 80, 81]),
      (''Am'', [69, 71, 72, 74, 76, 77, 79, 81]),
      (''Em'', [64, 66, 67, 69, 71, 72, 74, 76]),
      (''Dm'', [62, 64, 65, 67, 69, 70, 72, 74])]"

definition genreSettings_001 :: "(string \<times> settings) list" where
  "genreSettings_001 =
     [(''classical'', \<lparr>jumpRange = Num 3, rhythmVariety = lit (3/10)\<rparr>),
      (''jazz'', \<lparr>jumpRange = Num 5, rhythmVariety = lit (7/10)\<rparr>),
      (''electronic'', \<lparr>jumpRange = Num 6, rhythmVariety = lit (8/10)\<rparr>),
      (''ambient'', \<lparr>jumpRange = Num 2, rhythmVariety = lit (2/10)\<rparr>),
      (''minimalist'', \<lparr>jumpRange = Num 1, rhythmVariety = lit (1/10)\<rparr>),
      (''baroque'', \<lparr>jumpRange = Num 4, rhythmVariety = lit (4/10)\<rparr>)]"

definition noteStep_001 ::
  "(nat \<Rightarrow> real) \<Rightarrow> real list propval \<Rightarrow> settings propval \<Rightarrow> jsnum \<Rightarrow> nat \<Rightarrow> jsnum \<Rightarrow> jsnum option
     \<Rightarrow> error + (Note \<times> jsnum option)" where
  "noteStep_001 u scale settings creat k currentTime lastPitch =
     (case readField jumpRange settings of
        Inl e \<Rightarrow> Inl e
      | Inr jr \<Rightarrow>
     (case scale of
        Undefined \<Rightarrow> Inl TypeError
      | Inherited \<Rightarrow> Inl TypeError
      | Own xs \<Rightarrow>
     (case readField rhythmVariety settings of
        Inl e \<Rightarrow> Inl e
      | Inr rv \<Rightarrow>
          let pitchVariation =
                Math_floor (jmul (jmul (jmul (jsub (Num (u k)) (Num (1/2))) (Num 2)) jr) creat);
              found = indexOf xs lastPitch;
              scaleIndex0 = (if found = - 1 then 0 else found);
              scaleIndex =
                Math_max (Num 0)
                  (Math_min (jsub (Num (real (length xs))) (Num 1)) (jadd (Num (of_int scaleIndex0)) pitchVariation));
              pitch' = jadd (toNumber (elemAt xs scaleIndex))
                        (if jgt (Num (u (k + 1))) (lit (8/10)) then Num 12 else Num 0);
              baseDuration = Num (1/4);
              rhythmFactor =
                jadd (Num 1) (jmul (jmul (jsub (Num (u (k + 2))) (Num (1/2))) rv) creat);
              dur = Math_max (Num (1/8)) (jmul baseDuration rhythmFactor);
              vel = jadd (Num 60) (jmul (jmul (Num (u (k + 3))) (Num 40)) creat)
          in Inr (\<lparr>pitch = pitch', note_duration = dur,
                    velocity = Math_floor vel, time = currentTime\<rparr>,
                  Some pitch'))))"

function genLoop_001 ::
  "(nat \<Rightarrow> real) \<Rightarrow> real list propval \<Rightarrow> settings propval \<Rightarrow> jsnum \<Rightarrow> jsnum \<Rightarrow> nat \<Rightarrow> nat
     \<Rightarrow> jsnum \<Rightarrow> jsnum option \<Rightarrow> Note list \<Rightarrow> error + Note list" where
  "genLoop_001 u scale settings creat noteCount i k currentTime lastPitch acc =
     (if jlt (Num (real i)) noteCount then
        (case noteStep_001 u scale settings creat k currentTime lastPitch of
           Inl e \<Rightarrow> Inl e
         | Inr (note, lastPitch') \<Rightarrow>
             genLoop_001 u scale settings creat noteCount (Suc i) (k + 4)
               (jadd currentTime (note_duration note)) lastPitch' (acc @ [note]))
      else Inr acc)"
  by pat_completeness auto
termination
proof (relation "measure (\<lambda>(u, scale, settings, creat, noteCount, i, rest).
                   case noteCount of NaN \<Rightarrow> 0 | Num c \<Rightarrow> nat \<lceil>c\<rceil> - i)")
  show "wf (measure (\<lambda>(u, scale, settings, creat, noteCount, i, rest).
                   case noteCount of NaN \<Rightarrow> 0 | Num c \<Rightarrow> nat \<lceil>c\<rceil> - i))"
    by simp
next
  fix u :: "nat \<Rightarrow> real" and scale :: "real list propval" and settings :: "settings propval"
    and creat noteCount :: jsnum and i k :: nat and currentTime :: jsnum
    and lastPitch :: "jsnum option" and acc :: "Note list"
    and x2 :: "Note \<times> jsnum option" and x y
  assume "jlt (Num (real i)) noteCount"
  then obtain c where c: "noteCount = Num c" "real i < c"
    by (cases noteCount) simp_all
  then have "i < nat \<lceil>c\<rceil>" by linarith
  then show "((u, scale, settings, creat, noteCount, Suc i, k + 4,
                jadd currentTime (note_duration x), y, acc @ [x]),
              (u, scale, settings, creat, noteCount, i, k, currentTime, lastPitch, acc))
             \<in> measure (\<lambda>(u, scale, settings, creat, noteCount, i, rest).
                   case noteCount of NaN \<Rightarrow> 0 | Num c \<Rightarrow> nat \<lceil>c\<rceil> - i)"
    using c by simp
qed

definition generateMelody_001 :: "(nat \<Rightarrow> real) \<Rightarrow> GenerationParams \<Rightarrow> error + Melody" where
  "generateMelody_001 u params =
     (let noteCount = jmul (duration params) (Num 4);
          scale = orElse (getProp scalePatterns_001 (key params)) (getProp scalePatterns_001 ''C'');
          settings = orElse (getProp genreSettings_001 (genre params))
                       (getProp genreSettings_001 ''classical'')
      in case middleOf scale of
           Inl e \<Rightarrow> Inl e
         | Inr lastPitch \<Rightarrow>
             (case genLoop_001 u scale settings (creativity params) noteCount 0 1 (Num 0) lastPitch [] of
                Inl e \<Rightarrow> Inl e
              | Inr ns \<Rightarrow>
                  Inr \<lparr>notes = ns, melody_tempo = tempo params, melody_key = key params,
                       melody_genre = genre params\<rparr>))"


section \<open>Playback\<close>

text \<open>
  Playback is modelled by the requests it makes to the Web Audio interface, in order.
  Failures of the audio subsystem itself are not modelled (the first version catches,
  logs and rethrows them), nor are console output and the timer that only logs the end
  of playback.
\<close>

datatype OscillatorType = Sine | Triangle | Square

record voice =
  osc_type :: OscillatorType
  osc_frequency :: jsnum
  osc_start :: jsnum
  osc_stop :: jsnum
  peak_gain :: jsnum

datatype audio_effect =
    NewContext
  | Resume
  | MasterGain jsnum
  | StartVoice voice
  | Timer jsnum voice

record AudioCtx =
  ctx_time :: real
  suspended :: bool

definition typeMap :: "(string \<times> OscillatorType) list" where
  "typeMap =
     [(''classical'', Sine), (''jazz'', Triangle), (''electronic'', Square),
      (''ambient'', Sine), (''minimalist'', Sine), (''baroque'', Triangle)]"

definition getOscillatorType :: "string \<Rightarrow> OscillatorType propval" where
  "getOscillatorType g = orElse (getProp typeMap g) (Own Sine)"

text \<open>
  Assigning \<open>oscillator.type\<close>: a value that is not one of the type names is ignored and
  the oscillator keeps its initial type, \<open>sine\<close>.
\<close>

definition assignType :: "OscillatorType propval \<Rightarrow> OscillatorType" where
  "assignType v = (case v of Own t \<Rightarrow> t | _ \<Rightarrow> Sine)"

definition frequencyOf :: "Note \<Rightarrow> jsnum" where
  "frequencyOf note = jmul (Num 440) (Math_pow2 (jdiv (jsub (pitch note) (Num 69)) (Num 12)))"

definition voiceOf :: "AudioCtx \<Rightarrow> Melody \<Rightarrow> Note \<Rightarrow> voice" where
  "voiceOf ctx melody note =
     (let startTime = jadd (Num (ctx_time ctx)) (jmul (time note) (Num (1/2)));
          noteDuration = jmul (note_duration note) (Num (1/2));
          vel = jdiv (velocity note) (Num 127);
          volume = jmul vel (Num (1/2))
      in \<lparr>osc_type = assignType (getOscillatorType (melody_genre melody)),
          osc_frequency = frequencyOf note,
          osc_start = startTime,
          osc_stop = jadd startTime noteDuration,
          peak_gain = volume\<rparr>)"

definition playMIDI :: "AudioCtx \<Rightarrow> Melody \<Rightarrow> 'e option \<Rightarrow> error + audio_effect list" where
  "playMIDI ctx melody audioElement =
     (case audioElement of
        None \<Rightarrow> Inr []
      | Some el \<Rightarrow>
          Inr ([NewContext] @ (if suspended ctx then [Resume] else []) @ [MasterGain (lit (3/10))]
               @ map (\<lambda>note. StartVoice (voiceOf ctx melody note)) (notes melody)))"

text \<open>
  The second version starts each voice from a timer of \<open>note.time * 1000\<close> milliseconds;
  the voice's times are then relative to the moment the timer fires.
\<close>

definition voiceOf_001 :: "Melody \<Rightarrow> Note \<Rightarrow> voice" where
  "voiceOf_001 melody note =
     (let volume = jmul (jdiv (velocity note) (Num 127)) (lit (1/10))
      in \<lparr>osc_type = assignType (getOscillatorType (melody_genre melody)),
          osc_frequency = frequencyOf note,
          osc_start = Num 0,
          osc_stop = jadd (Num 0) (note_duration note),
          peak_gain = volume\<rparr>)"

definition playMIDI_001 :: "Melody \<Rightarrow> 'e option \<Rightarrow> error + audio_effect list" where
  "playMIDI_001 melody audioElement =
     (case audioElement of
        None \<Rightarrow> Inr []
      | Some el \<Rightarrow>
          Inr ([NewContext]
               @ map (\<lambda>note. Timer (jmul (time note) (Num 1000)) (voiceOf_001 melody note))
                   (notes melody)))"

section \<open>The container encoder\<close>

text \<open>
  \<open>target.set(source, offset)\<close> on a \<open>Uint8Array\<close> copies \<open>source\<close> into \<open>target\<close> from
  \<open>offset\<close> on and throws a \<open>RangeError\<close> when the source does not fit.
\<close>

definition uint8_set :: "8 word list \<Rightarrow> 8 word list \<Rightarrow> nat \<Rightarrow> error + 8 word list" where
  "uint8_set target source offset =
     (if length target < offset + length source then Inl RangeError
      else Inr (take offset target @ source @ drop (offset + length source) target))"

definition createSimpleMIDI :: "Melody \<Rightarrow> error + 8 word list" where
  "createSimpleMIDI melody =
     (let header = [0x4D, 0x54, 0x68, 0x64,
                    0x00, 0x00, 0x00, 0x06,
                    0x00, 0x00,
                    0x00, 0x01,
                    0x00, 0x60];
          trackData = [0x4D, 0x54, 0x72, 0x6B,
                       0x00, 0x00, 0x00, 0x20,
                       0x00, 0xFF, 0x2F, 0x00];
          result = replicate (length header + length trackData) 0
      in case uint8_set result header 0 of
           Inl e \<Rightarrow> Inl e
         | Inr result' \<Rightarrow> uint8_set result' trackData (length header))"

definition createSimpleMIDI_001 :: "Melody \<Rightarrow> error + 8 word list" where
  "createSimpleMIDI_001 melody =
     (let header = [0x4D, 0x54, 0x68, 0x64,
                    0x00, 0x00, 0x00, 0x06,
                    0x00, 0x00,
                    0x00, 0x01,
                    0x00, 0x60];
          trackData = [0x4D, 0x54, 0x72, 0x6B,
                       0x00, 0x00, 0x00, 0x20,
                       0x00, 0xFF, 0x2F, 0x00];
          result = replicate (length header + length trackData) 0
      in case uint8_set result header 0 of
           Inl e \<Rightarrow> Inl e
         | Inr result' \<Rightarrow> uint8_set result' trackData (length header))"


section \<open>Auxiliary notions for the proofs\<close>

text \<open>
  The scale and the settings the generator works with, after the \<open>||\<close> fallback.
\<close>

definition resolvedScale :: "string \<Rightarrow> real list propval" where
  "resolvedScale k = orElse (getProp scalePatterns k) (getProp scalePatterns ''C'')"

definition resolvedSettings :: "string \<Rightarrow> settings propval" where
  "resolvedSettings g = orElse (getProp genreSettings g) (getProp genreSettings ''classical'')"

text \<open>
  \<open>steps u scale settings creat k t lp ns\<close>: the notes \<open>ns\<close> are what successive passes of the
  loop body produce from stream position \<open>k\<close>, time \<open>t\<close> and last pitch \<open>lp\<close>.
\<close>

fun steps ::
  "(nat \<Rightarrow> real) \<Rightarrow> real list propval \<Rightarrow> settings propval \<Rightarrow> jsnum \<Rightarrow> nat \<Rightarrow> jsnum \<Rightarrow> jsnum option
     \<Rightarrow> Note list \<Rightarrow> bool" where
  "steps u scale settings creat k t lp [] = True"
| "steps u scale settings creat k t lp (n # ns) =
     (case noteStep u scale settings creat k t lp of
        Inl e \<Rightarrow> False
      | Inr (n', lp') \<Rightarrow>
          n' = n \<and> steps u scale settings creat (k + 4) (jadd t (note_duration n)) lp' ns)"

text \<open>
  \<open>contiguous t ns\<close>: the first note starts at \<open>t\<close> and every note starts where its
  predecessor ends, none of these times being \<open>NaN\<close>, and no start precedes the one before.
\<close>

fun contiguous :: "jsnum \<Rightarrow> Note list \<Rightarrow> bool" where
  "contiguous t [] = True"
| "contiguous t (n # ns) =
     (time n = t \<and> jle t (jadd t (note_duration n))
      \<and> jeq (jadd t (note_duration n)) (jadd t (note_duration n))
      \<and> contiguous (jadd t (note_duration n)) ns)"

text \<open>The notes of an outcome; none when the generator threw.\<close>

definition notesOf :: "error + Melody \<Rightarrow> Note list" where
  "notesOf r = (case r of Inl e \<Rightarrow> [] | Inr m \<Rightarrow> notes m)"

section \<open>Concrete inputs\<close>

text \<open>
  Draw streams and parameter records at which results are evaluated. \<open>halfDraws\<close> answers
  every draw with 0.5; \<open>topDraws\<close> answers the draw that sets the first note's velocity
  (draw 4) with the double just below 1. \<open>constructorKey\<close> and \<open>outOfRange\<close> name a key,
  and \<open>constructorGenre\<close> a genre, that no table lists but every object inherits.
\<close>

definition halfDraws :: "nat \<Rightarrow> real" where
  "halfDraws k = 1/2"

definition topDraws :: "nat \<Rightarrow> real" where
  "topDraws k = (if k = 4 then 1 - 1 / 2 ^ 52 else 1/2)"

definition ambientScenario :: GenerationParams where
  "ambientScenario =
     \<lparr>genre = ''ambient'', creativity = Num (1/2), tempo = Num 90, key = ''Am'', duration = Num 8\<rparr>"

definition nanCreativity :: GenerationParams where
  "nanCreativity =
     \<lparr>genre = ''classical'', creativity = NaN, tempo = Num 120, key = ''C'', duration = Num 1\<rparr>"

definition fullCreativity :: GenerationParams where
  "fullCreativity =
     \<lparr>genre = ''classical'', creativity = Num 1, tempo = Num 120, key = ''C'', duration = Num 1\<rparr>"

definition constructorKey :: GenerationParams where
  "constructorKey =
     \<lparr>genre = ''classical'', creativity = Num (1/2), tempo = Num 120, key = ''constructor'',
        duration = Num 1\<rparr>"

definition constructorGenre :: GenerationParams where
  "constructorGenre =
     \<lparr>genre = ''constructor'', creativity = Num (1/2), tempo = Num 120, key = ''C'',
        duration = Num 1\<rparr>"

definition outOfRange :: GenerationParams where
  "outOfRange =
     \<lparr>genre = ''classical'', creativity = Num 5, tempo = Num 120, key = ''constructor'',
        duration = Num (1/2)\<rparr>"

section \<open>Rounding to a double\<close>

lemma rne_of_int: "rne (of_int n) = n"
  by (simp add: rne_def)

lemma rne_mono: "y \<le> y' \<Longrightarrow> rne y \<le> rne y'"
proof -
  assume le: "y \<le> y'"
  have f: "\<lfloor>y\<rfloor> \<le> \<lfloor>y'\<rfloor>" using le by (rule floor_mono)
  show ?thesis
  proof (cases "\<lfloor>y\<rfloor> = \<lfloor>y'\<rfloor>")
    case True
    then show ?thesis using le by (auto simp: rne_def Let_def)
  next
    case False
    with f have "\<lfloor>y\<rfloor> + 1 \<le> \<lfloor>y'\<rfloor>" by simp
    moreover have "rne y \<le> \<lfloor>y\<rfloor> + 1" by (simp add: rne_def Let_def)
    moreover have "\<lfloor>y'\<rfloor> \<le> rne y'" by (simp add: rne_def Let_def)
    ultimately show ?thesis by linarith
  qed
qed

lemma rne_minus: "rne (- y) = - rne y"
proof (cases "y \<in> \<int>")
  case True
  then obtain n where "y = of_int n" by (auto elim: Ints_cases)
  then show ?thesis using rne_of_int [of "- n"] rne_of_int [of n] by simp
next
  case False
  then have "y \<noteq> of_int \<lfloor>y\<rfloor>" by (metis Ints_of_int)
  then have fl: "\<lfloor>- y\<rfloor> = - \<lfloor>y\<rfloor> - 1"
    by (simp add: floor_minus ceiling_altdef)
  show ?thesis
    unfolding rne_def Let_def fl by (auto simp: algebra_simps)
qed

lemma expo_bounds:
  assumes "x \<noteq> 0"
  shows "2 powr of_int (expo x) \<le> \<bar>x\<bar>" and "\<bar>x\<bar> < 2 powr (of_int (expo x) + 1)"
  using assms floor_log_eq_powr_iff [of "\<bar>x\<bar>" 2 "expo x"] by (simp_all add: expo_def)

lemma expo_eqI:
  "2 powr of_int e \<le> \<bar>x\<bar> \<Longrightarrow> \<bar>x\<bar> < 2 powr (of_int e + 1) \<Longrightarrow> expo x = e"
proof -
  assume a: "2 powr of_int e \<le> \<bar>x\<bar>" and b: "\<bar>x\<bar> < 2 powr (of_int e + 1)"
  have "0 < (2::real) powr of_int e" by simp
  with a have "0 < \<bar>x\<bar>" by linarith
  then show ?thesis using a b floor_log_eq_powr_iff [of "\<bar>x\<bar>" 2 e] by (simp add: expo_def)
qed

lemma round64_expo:
  "round64 x = (if x = 0 then 0 else of_int (rne (x / 2 powr of_int (expo x - 52))) * 2 powr of_int (expo x - 52))"
  by (simp add: round64_def Let_def)

lemma round64_zero: "round64 0 = 0"
  by (simp add: round64_def)

lemma round64_minus: "round64 (- x) = - round64 x"
  by (simp add: round64_expo expo_def rne_minus)

lemma scaled_bounds:
  assumes "0 < x"
  shows "2 ^ 52 \<le> x / 2 powr of_int (expo x - 52)" and "x / 2 powr of_int (expo x - 52) < 2 ^ 53"
proof -
  have x0: "x \<noteq> 0" using assms by simp
  have q: "(2::real) powr of_int (expo x - 52) = 2 powr of_int (expo x) / 2 ^ 52"
    by (simp add: powr_diff)
  have lo: "2 powr of_int (expo x) \<le> x" using expo_bounds(1) [OF x0] assms by simp
  have hi: "x < 2 powr of_int (expo x) * 2" using expo_bounds(2) [OF x0] assms by (simp add: powr_add)
  have p: "0 < (2::real) powr of_int (expo x)" by simp
  show "2 ^ 52 \<le> x / 2 powr of_int (expo x - 52)"
    unfolding q using lo p by (simp add: field_simps)
  show "x / 2 powr of_int (expo x - 52) < 2 ^ 53"
    unfolding q using hi p by (simp add: field_simps)
qed

lemma rne_scaled_bounds:
  assumes "0 < x"
  shows "2 ^ 52 \<le> rne (x / 2 powr of_int (expo x - 52))" and "rne (x / 2 powr of_int (expo x - 52)) \<le> 2 ^ 53"
proof -
  have "rne (of_int (2 ^ 52)) \<le> rne (x / 2 powr of_int (expo x - 52))"
    by (rule rne_mono) (use scaled_bounds(1) [OF assms] in simp)
  then show "2 ^ 52 \<le> rne (x / 2 powr of_int (expo x - 52))" by (simp only: rne_of_int)
  have "rne (x / 2 powr of_int (expo x - 52)) \<le> rne (of_int (2 ^ 53))"
    by (rule rne_mono) (use scaled_bounds(2) [OF assms] in simp)
  then show "rne (x / 2 powr of_int (expo x - 52)) \<le> 2 ^ 53" by (simp only: rne_of_int)
qed

lemma round64_binade:
  assumes "0 < x"
  shows "2 powr of_int (expo x) \<le> round64 x" and "round64 x \<le> 2 powr (of_int (expo x) + 1)"
proof -
  let ?q = "(2::real) powr of_int (expo x - 52)"
  let ?n = "rne (x / ?q)"
  have r: "round64 x = of_int ?n * ?q" using assms by (simp add: round64_expo)
  have q0: "0 < ?q" by simp
  have "(of_int (2 ^ 52) :: real) \<le> of_int ?n"
    using rne_scaled_bounds(1) [OF assms] by (simp only: of_int_le_iff)
  then have a: "(2::real) ^ 52 \<le> of_int ?n" by simp
  have "(of_int ?n :: real) \<le> of_int (2 ^ 53)"
    using rne_scaled_bounds(2) [OF assms] by (simp only: of_int_le_iff)
  then have b: "of_int ?n \<le> (2::real) ^ 53" by simp
  have e1: "(2::real) powr of_int (expo x) = 2 ^ 52 * ?q" by (simp add: powr_diff)
  have e2: "(2::real) powr (of_int (expo x) + 1) = 2 ^ 53 * ?q" by (simp add: powr_diff powr_add)
  show "2 powr of_int (expo x) \<le> round64 x"
    unfolding r e1 using a q0 by (rule_tac mult_right_mono) simp_all
  show "round64 x \<le> 2 powr (of_int (expo x) + 1)"
    unfolding r e2 using b q0 by (rule_tac mult_right_mono) simp_all
qed

lemma round64_pos: "0 < x \<Longrightarrow> 0 < round64 x"
proof -
  assume "0 < x"
  from round64_binade(1) [OF this] have "2 powr of_int (expo x) \<le> round64 x" .
  moreover have "0 < (2::real) powr of_int (expo x)" by simp
  ultimately show ?thesis by linarith
qed

lemma expo_mono: "0 < x \<Longrightarrow> x \<le> y \<Longrightarrow> expo x \<le> expo y"
  unfolding expo_def by (intro floor_mono) (simp add: log_le_cancel_iff)

lemma round64_mono_pos:
  assumes "0 < x" "x \<le> y"
  shows "round64 x \<le> round64 y"
proof (cases "expo x = expo y")
  case True
  have y: "0 < y" using assms by simp
  let ?q = "(2::real) powr of_int (expo y - 52)"
  have "x / ?q \<le> y / ?q" using assms by (simp add: divide_right_mono)
  then have "rne (x / ?q) \<le> rne (y / ?q)" by (rule rne_mono)
  then have "of_int (rne (x / ?q)) * ?q \<le> of_int (rne (y / ?q)) * ?q"
    by (intro mult_right_mono) simp_all
  then show ?thesis using assms y True by (simp add: round64_expo)
next
  case False
  have y: "0 < y" using assms by simp
  from False expo_mono [OF assms] have "expo x + 1 \<le> expo y" by simp
  then have "real_of_int (expo x) + 1 \<le> real_of_int (expo y)" by linarith
  then have "(2::real) powr (of_int (expo x) + 1) \<le> 2 powr of_int (expo y)"
    by (intro powr_mono) simp_all
  with round64_binade(2) [OF assms(1)] round64_binade(1) [OF y] show ?thesis by linarith
qed

lemma round64_mono: "x \<le> y \<Longrightarrow> round64 x \<le> round64 y"
proof -
  assume le: "x \<le> y"
  consider "0 < x" | "x = 0" | "x < 0" "y < 0" | "x < 0" "y = 0" | "x < 0" "0 < y" by linarith
  then show ?thesis
  proof cases
    case 1 then show ?thesis using le by (rule round64_mono_pos)
  next
    case 2
    show ?thesis
    proof (cases "y = 0")
      case True with 2 show ?thesis by simp
    next
      case False
      with 2 le have "0 < y" by simp
      from round64_pos [OF this] 2 show ?thesis by (simp add: round64_zero)
    qed
  next
    case 3
    then have "round64 (- y) \<le> round64 (- x)" using le by (intro round64_mono_pos) simp_all
    then show ?thesis by (simp add: round64_minus)
  next
    case 4
    then have "0 < round64 (- x)" by (intro round64_pos) simp
    with 4 show ?thesis by (simp add: round64_minus round64_zero)
  next
    case 5
    then have "0 < round64 (- x)" "0 < round64 y" by (simp_all add: round64_pos)
    then show ?thesis by (simp add: round64_minus)
  qed
qed

lemma round64_exact:
  assumes m: "\<bar>m\<bar> < 2 ^ 53"
  shows "round64 (of_int m * 2 powr of_int e) = of_int m * 2 powr of_int e"
proof (cases "m = 0")
  case True
  then show ?thesis by (simp add: round64_zero)
next
  case False
  define x :: real where "x = of_int m * 2 powr of_int e"
  define E where "E = expo x"
  have x0: "x \<noteq> 0" using False by (simp add: x_def)
  have "(of_int \<bar>m\<bar> :: real) < of_int (2 ^ 53)" using m by (simp only: of_int_less_iff)
  then have "\<bar>of_int m :: real\<bar> < 2 ^ 53" by simp
  then have "\<bar>x\<bar> < 2 ^ 53 * 2 powr of_int e"
    by (simp add: x_def abs_mult)
  also have "\<dots> = 2 powr (of_int e + 53)" by (simp add: powr_add)
  finally have "2 powr of_int E < (2::real) powr (of_int e + 53)"
    using expo_bounds(1) [OF x0] unfolding E_def by linarith
  then have "real_of_int E < of_int e + 53" by simp
  then have k: "0 \<le> e - (E - 52)" by linarith
  define k where "k = nat (e - (E - 52))"
  have e: "e = (E - 52) + int k" using k by (simp add: k_def)
  have "(2::real) powr of_int e = 2 powr of_int (E - 52) * 2 powr of_int (int k)"
    by (subst e) (simp only: of_int_add powr_add)
  also have "(2::real) powr of_int (int k) = 2 ^ k" by (simp add: powr_realpow)
  finally have pe: "(2::real) powr of_int e = 2 powr of_int (E - 52) * 2 ^ k" .
  have xk: "x = of_int (m * 2 ^ k) * 2 powr of_int (E - 52)"
    by (simp add: x_def pe)
  have "x / 2 powr of_int (E - 52) = of_int (m * 2 ^ k)"
    by (subst xk) simp
  then have "rne (x / 2 powr of_int (E - 52)) = m * 2 ^ k"
    by (simp only: rne_of_int)
  then have "round64 x = of_int (m * 2 ^ k) * 2 powr of_int (E - 52)"
    using x0 by (simp only: round64_expo if_False E_def)
  with xk have "round64 x = x" by (simp only:)
  then show ?thesis by (simp only: x_def)
qed

lemma round64_repr:
  "\<exists>m e. \<bar>m\<bar> < 2 ^ 53 \<and> round64 x = of_int m * 2 powr of_int e"
proof -
  have pos: "\<exists>m e. \<bar>m\<bar> < 2 ^ 53 \<and> round64 y = of_int m * 2 powr of_int e" if y: "0 < y" for y
  proof -
    let ?q = "(2::real) powr of_int (expo y - 52)"
    let ?n = "rne (y / ?q)"
    have r: "round64 y = of_int ?n * ?q" using y by (simp add: round64_expo)
    have lo: "2 ^ 52 \<le> ?n" and hi: "?n \<le> 2 ^ 53" using rne_scaled_bounds [OF y] by simp_all
    show ?thesis
    proof (cases "?n = 2 ^ 53")
      case True
      have "round64 y = of_int (2 ^ 52) * 2 powr of_int (expo y - 51)"
        unfolding r True by (simp add: powr_diff)
      moreover have "\<bar>2 ^ 52 :: int\<bar> < 2 ^ 53" by simp
      ultimately show ?thesis by blast
    next
      case False
      with lo hi have "\<bar>?n\<bar> < 2 ^ 53" by simp
      with r show ?thesis by blast
    qed
  qed
  consider "0 < x" | "x = 0" | "x < 0" by linarith
  then show ?thesis
  proof cases
    case 1 then show ?thesis by (rule pos)
  next
    case 2
    have "\<bar>0::int\<bar> < 2 ^ 53 \<and> round64 x = of_int 0 * 2 powr of_int 0" using 2 by (simp add: round64_zero)
    then show ?thesis by blast
  next
    case 3
    then have "0 < - x" by simp
    from pos [OF this] obtain m e where "\<bar>m\<bar> < 2 ^ 53" "round64 (- x) = of_int m * 2 powr of_int e"
      by blast
    then have "\<bar>- m\<bar> < 2 ^ 53 \<and> round64 x = of_int (- m) * 2 powr of_int e"
      by (simp add: round64_minus)
    then show ?thesis by blast
  qed
qed

lemma round64_idem: "round64 (round64 x) = round64 x"
proof -
  obtain m e where "\<bar>m\<bar> < 2 ^ 53" "round64 x = of_int m * 2 powr of_int e"
    using round64_repr by blast
  then show ?thesis using round64_exact [of m e] by simp
qed

lemma round64_scale:
  assumes "round64 x = x"
  shows "round64 (x * 2 powr of_int k) = x * 2 powr of_int k"
proof -
  obtain m e where m: "\<bar>m\<bar> < 2 ^ 53" and x: "round64 x = of_int m * 2 powr of_int e"
    using round64_repr by blast
  have "x * 2 powr of_int k = of_int m * 2 powr of_int (e + k)"
    using x assms by (simp add: powr_add)
  then show ?thesis using round64_exact [OF m, of "e + k"] by simp
qed

lemma round64_of_int: "\<bar>n\<bar> < 2 ^ 53 \<Longrightarrow> round64 (of_int n) = of_int n"
  using round64_exact [of n 0] by simp

lemma round64_eval:
  assumes "2 powr of_int e \<le> \<bar>x\<bar>" "\<bar>x\<bar> < 2 powr (of_int e + 1)"
  shows "round64 x = of_int (rne (x / 2 powr of_int (e - 52))) * 2 powr of_int (e - 52)"
proof -
  have "expo x = e" using assms by (rule expo_eqI)
  moreover have "x \<noteq> 0" using assms(1) by (auto simp: not_le)
  ultimately show ?thesis by (simp add: round64_expo)
qed

section \<open>The generator: structure of a run\<close>

declare genLoop.simps [simp del]

lemma genLoop_steps:
  "genLoop u sc st c nc i k t lp acc = Inr res \<Longrightarrow>
     \<exists>ns. res = acc @ ns \<and> steps u sc st c k t lp ns"
proof (induction u sc st c nc i k t lp acc rule: genLoop.induct)
  case (1 u sc st c nc i k t lp acc)
  show ?case
  proof (cases "jlt (Num (real i)) nc")
    case False
    with "1.prems" have "res = acc" by (simp add: genLoop.simps [of u sc st c nc i])
    then show ?thesis by simp
  next
    case True
    show ?thesis
    proof (cases "noteStep u sc st c k t lp")
      case (Inl e)
      with True "1.prems" show ?thesis by (simp add: genLoop.simps [of u sc st c nc i])
    next
      case (Inr r)
      obtain n lp' where r: "r = (n, lp')" by (cases r)
      from True Inr r "1.prems"
      have "genLoop u sc st c nc (Suc i) (k + 4) (jadd t (note_duration n)) lp' (acc @ [n]) = Inr res"
        by (simp add: genLoop.simps [of u sc st c nc i])
      from "1.IH" [OF True Inr r [symmetric] this]
      obtain ns where "res = (acc @ [n]) @ ns" "steps u sc st c (k + 4) (jadd t (note_duration n)) lp' ns"
        by blast
      then have "res = acc @ (n # ns) \<and> steps u sc st c k t lp (n # ns)"
        using Inr r by simp
      then show ?thesis by blast
    qed
  qed
qed

lemma genLoop_length:
  "genLoop u sc st c (Num (real n)) i k t lp acc = Inr res \<Longrightarrow> length res = length acc + (n - i)"
proof (induction u sc st c "Num (real n)" i k t lp acc rule: genLoop.induct)
  case (1 u sc st c i k t lp acc)
  show ?case
  proof (cases "i < n")
    case False
    with "1.prems" have "res = acc" by (simp add: genLoop.simps [of u sc st c _ i])
    then show ?thesis using False by simp
  next
    case True
    then have cond: "jlt (Num (real i)) (Num (real n))" by simp
    show ?thesis
    proof (cases "noteStep u sc st c k t lp")
      case (Inl e)
      with True "1.prems" show ?thesis by (simp add: genLoop.simps [of u sc st c _ i])
    next
      case (Inr r)
      obtain x lp' where r: "r = (x, lp')" by (cases r)
      from True Inr r "1.prems"
      have "genLoop u sc st c (Num (real n)) (Suc i) (k + 4) (jadd t (note_duration x)) lp' (acc @ [x]) = Inr res"
        by (simp add: genLoop.simps [of u sc st c _ i])
      from "1.hyps" [OF cond Inr r [symmetric] this] True show ?thesis by simp
    qed
  qed
qed

lemma noteStep_Own:
  "st \<noteq> Undefined \<Longrightarrow> \<exists>n. noteStep u (Own xs) st c k t lp = Inr (n, Some (pitch n)) \<and> time n = t"
  by (cases st) (simp_all add: noteStep_def readField_def Let_def)

lemma genLoop_total:
  "st \<noteq> Undefined \<Longrightarrow> \<exists>res. genLoop u (Own xs) st c nc i k t lp acc = Inr res"
proof (induction u "Own xs :: real list propval" st c nc i k t lp acc rule: genLoop.induct)
  case (1 u st c nc i k t lp acc)
  show ?case
  proof (cases "jlt (Num (real i)) nc")
    case False
    then show ?thesis by (simp add: genLoop.simps [of u _ st c nc i])
  next
    case True
    from noteStep_Own [OF "1.prems"] obtain x where
      x: "noteStep u (Own xs) st c k t lp = Inr (x, Some (pitch x))" by blast
    from "1.hyps" [OF True x refl "1.prems"] obtain res where
      "genLoop u (Own xs) st c nc (Suc i) (k + 4) (jadd t (note_duration x)) (Some (pitch x)) (acc @ [x]) = Inr res"
      by blast
    with True x show ?thesis by (simp add: genLoop.simps [of u _ st c nc i])
  qed
qed

lemma genLoop_skip:
  "\<not> jlt (Num (real i)) nc \<Longrightarrow> genLoop u sc st c nc i k t lp acc = Inr acc"
  by (simp add: genLoop.simps [of u sc st c nc i])

lemma genLoop_throw:
  "jlt (Num (real i)) nc \<Longrightarrow> genLoop u Inherited st c nc i k t lp acc = Inl TypeError"
  by (simp add: genLoop.simps [of u _ st c nc i] noteStep_def readField_def split: propval.splits)

lemma contiguous_nth:
  "contiguous t ns \<Longrightarrow> i + 1 < length ns \<Longrightarrow>
     jle (time (ns ! i)) (time (ns ! (i + 1)))
     \<and> jeq (jadd (time (ns ! i)) (note_duration (ns ! i))) (time (ns ! (i + 1)))"
proof (induction ns arbitrary: t i)
  case Nil
  then show ?case by simp
next
  case (Cons n ns)
  from Cons.prems obtain n2 ns' where ns: "ns = n2 # ns'" by (cases ns) simp_all
  show ?case
  proof (cases i)
    case 0
    with Cons.prems ns show ?thesis by simp
  next
    case (Suc j)
    with Cons.prems have "contiguous (jadd t (note_duration n)) ns" "j + 1 < length ns" by simp_all
    from Cons.IH [OF this] Suc show ?thesis by simp
  qed
qed

lemma generateMelody_unfold:
  "generateMelody u p =
     (case middleOf (resolvedScale (key p)) of
        Inl e \<Rightarrow> Inl e
      | Inr lp \<Rightarrow>
          (case genLoop u (resolvedScale (key p)) (resolvedSettings (genre p)) (creativity p)
                  (jmul (duration p) (Num 4)) 0 1 (Num 0) lp [] of
             Inl e \<Rightarrow> Inl e
           | Inr ns \<Rightarrow> Inr \<lparr>notes = ns, melody_tempo = tempo p, melody_key = key p,
                              melody_genre = genre p\<rparr>))"
  unfolding generateMelody_def resolvedScale_def resolvedSettings_def Let_def ..

lemma map_of_scalePatterns_inherited:
  "k \<in> set objectPrototypeNames \<Longrightarrow> map_of scalePatterns k = None"
  by (auto simp: objectPrototypeNames_def scalePatterns_def)

lemma map_of_genreSettings_inherited:
  "g \<in> set objectPrototypeNames \<Longrightarrow> map_of genreSettings g = None"
  by (auto simp: objectPrototypeNames_def genreSettings_def)

lemma resolvedScale_inherited:
  "k \<in> set objectPrototypeNames \<Longrightarrow> resolvedScale k = Inherited"
  by (simp add: resolvedScale_def getProp_def orElse_def map_of_scalePatterns_inherited)

lemma resolvedScale_own:
  assumes "k \<notin> set objectPrototypeNames"
  shows "\<exists>xs. resolvedScale k = Own xs \<and> xs \<in> snd ` set scalePatterns"
proof (cases "map_of scalePatterns k")
  case None
  have "map_of scalePatterns ''C'' = Some [60, 62, 64, 65, 67, 69, 71, 72]"
    by (simp add: scalePatterns_def)
  moreover from this have "[60, 62, 64, 65, 67, 69, 71, 72] \<in> snd ` set scalePatterns"
    by (metis map_of_SomeD snd_conv image_eqI)
  ultimately show ?thesis using None assms
    by (simp add: resolvedScale_def getProp_def orElse_def)
next
  case (Some xs)
  then have "xs \<in> snd ` set scalePatterns" by (metis map_of_SomeD snd_conv image_eqI)
  with Some show ?thesis by (simp add: resolvedScale_def getProp_def orElse_def)
qed

lemma resolvedSettings_inherited:
  "g \<in> set objectPrototypeNames \<Longrightarrow> resolvedSettings g = Inherited"
  by (simp add: resolvedSettings_def getProp_def orElse_def map_of_genreSettings_inherited)

lemma resolvedSettings_own:
  assumes "g \<notin> set objectPrototypeNames"
  shows "\<exists>e. resolvedSettings g = Own e \<and> e \<in> snd ` set genreSettings"
proof (cases "map_of genreSettings g")
  case None
  have c: "map_of genreSettings ''classical'' = Some \<lparr>jumpRange = Num 3, rhythmVariety = lit (3/10)\<rparr>"
    by (simp add: genreSettings_def)
  then have "\<lparr>jumpRange = Num 3, rhythmVariety = lit (3/10)\<rparr> \<in> snd ` set genreSettings"
    by (metis map_of_SomeD snd_conv image_eqI)
  with c show ?thesis using None assms
    by (simp add: resolvedSettings_def getProp_def orElse_def)
next
  case (Some e)
  then have "e \<in> snd ` set genreSettings" by (metis map_of_SomeD snd_conv image_eqI)
  with Some show ?thesis by (simp add: resolvedSettings_def getProp_def orElse_def)
qed

lemma resolvedSettings_defined: "resolvedSettings g \<noteq> Undefined"
  using resolvedSettings_inherited [of g] resolvedSettings_own [of g] by (cases "g \<in> set objectPrototypeNames") auto

lemma genreSettings_entries:
  "e \<in> snd ` set genreSettings \<Longrightarrow> \<exists>jr rv. jumpRange e = Num jr \<and> rhythmVariety e = Num rv"
  by (auto simp: genreSettings_def lit_def)

lemma scalePatterns_entries:
  "xs \<in> snd ` set scalePatterns \<Longrightarrow>
     length xs = 8 \<and> (\<forall>x\<in>set xs. \<exists>n::int. x = of_int n \<and> 60 \<le> n \<and> n \<le> 81)"
proof -
  have *: "\<exists>n::int. (numeral w :: real) = of_int n \<and> 60 \<le> n \<and> n \<le> 81"
    if "60 \<le> (numeral w :: int)" "(numeral w :: int) \<le> 81" for w
    using that by (intro exI [of _ "numeral w"]) simp
  assume "xs \<in> snd ` set scalePatterns"
  then show ?thesis
    unfolding scalePatterns_def by (auto intro!: *)
qed

lemma middleOf_Own: "\<exists>lp. middleOf (Own xs) = Inr lp"
  by (simp add: middleOf_def)

lemma generateMelody_own:
  assumes "resolvedScale (key p) = Own xs"
  shows "\<exists>lp ns. generateMelody u p =
            Inr \<lparr>notes = ns, melody_tempo = tempo p, melody_key = key p, melody_genre = genre p\<rparr>
          \<and> genLoop u (Own xs) (resolvedSettings (genre p)) (creativity p)
                  (jmul (duration p) (Num 4)) 0 1 (Num 0) lp [] = Inr ns
          \<and> steps u (Own xs) (resolvedSettings (genre p)) (creativity p) 1 (Num 0) lp ns"
proof -
  obtain lp where lp: "middleOf (Own xs) = Inr lp" using middleOf_Own by blast
  obtain ns where ns: "genLoop u (Own xs) (resolvedSettings (genre p)) (creativity p)
                  (jmul (duration p) (Num 4)) 0 1 (Num 0) lp [] = Inr ns"
    using genLoop_total [OF resolvedSettings_defined] by blast
  from genLoop_steps [OF ns]
  have st: "steps u (Own xs) (resolvedSettings (genre p)) (creativity p) 1 (Num 0) lp ns"
    by simp
  have "generateMelody u p =
          Inr \<lparr>notes = ns, melody_tempo = tempo p, melody_key = key p, melody_genre = genre p\<rparr>"
    using lp ns assms by (simp add: generateMelody_unfold)
  with ns st show ?thesis by blast
qed

lemma generateMelody_inherited:
  assumes "key p \<in> set objectPrototypeNames"
  shows "generateMelody u p =
           (if jlt (Num 0) (jmul (duration p) (Num 4)) then Inl TypeError
            else Inr \<lparr>notes = [], melody_tempo = tempo p, melody_key = key p,
                      melody_genre = genre p\<rparr>)"
proof (cases "jlt (Num 0) (jmul (duration p) (Num 4))")
  case True
  then have "genLoop u Inherited (resolvedSettings (genre p)) (creativity p)
                  (jmul (duration p) (Num 4)) 0 1 (Num 0) None [] = Inl TypeError"
    by (intro genLoop_throw) simp
  with True show ?thesis
    by (simp add: generateMelody_unfold resolvedScale_inherited [OF assms] middleOf_def)
next
  case False
  then have "genLoop u Inherited (resolvedSettings (genre p)) (creativity p)
                  (jmul (duration p) (Num 4)) 0 1 (Num 0) None [] = Inr []"
    by (intro genLoop_skip) simp
  with False show ?thesis
    by (simp add: generateMelody_unfold resolvedScale_inherited [OF assms] middleOf_def)
qed

lemma generateMelody_Inr_inherited:
  assumes "generateMelody u p = Inr m" "key p \<in> set objectPrototypeNames"
  shows "notes m = []" and "\<not> jlt (Num 0) (jmul (duration p) (Num 4))"
    and "melody_tempo m = tempo p" and "melody_key m = key p" and "melody_genre m = genre p"
  using assms(1) generateMelody_inherited [OF assms(2), of u]
  by (auto split: if_splits)

lemma generateMelody_Inr_own:
  assumes "generateMelody u p = Inr m" "key p \<notin> set objectPrototypeNames"
  shows "\<exists>xs lp. xs \<in> snd ` set scalePatterns
             \<and> genLoop u (Own xs) (resolvedSettings (genre p)) (creativity p)
                  (jmul (duration p) (Num 4)) 0 1 (Num 0) lp [] = Inr (notes m)
             \<and> steps u (Own xs) (resolvedSettings (genre p)) (creativity p) 1 (Num 0) lp (notes m)"
    and "melody_tempo m = tempo p" and "melody_key m = key p" and "melody_genre m = genre p"
proof -
  from resolvedScale_own [OF assms(2)] obtain xs where
    xs: "resolvedScale (key p) = Own xs" "xs \<in> snd ` set scalePatterns" by blast
  from generateMelody_own [OF xs(1), of u] obtain lp ns where
    g: "generateMelody u p =
          Inr \<lparr>notes = ns, melody_tempo = tempo p, melody_key = key p, melody_genre = genre p\<rparr>"
    and l: "genLoop u (Own xs) (resolvedSettings (genre p)) (creativity p)
                  (jmul (duration p) (Num 4)) 0 1 (Num 0) lp [] = Inr ns"
    and s: "steps u (Own xs) (resolvedSettings (genre p)) (creativity p) 1 (Num 0) lp ns"
    by blast
  from g assms(1) have m: "m = \<lparr>notes = ns, melody_tempo = tempo p, melody_key = key p,
      melody_genre = genre p\<rparr>" by simp
  then have n: "notes m = ns" by simp
  from xs(2) l s show "\<exists>xs lp. xs \<in> snd ` set scalePatterns
             \<and> genLoop u (Own xs) (resolvedSettings (genre p)) (creativity p)
                  (jmul (duration p) (Num 4)) 0 1 (Num 0) lp [] = Inr (notes m)
             \<and> steps u (Own xs) (resolvedSettings (genre p)) (creativity p) 1 (Num 0) lp (notes m)"
    unfolding n by blast
  from m show "melody_tempo m = tempo p" "melody_key m = key p" "melody_genre m = genre p"
    by simp_all
qed

lemma generateMelody_returns:
  "key p \<notin> set objectPrototypeNames \<Longrightarrow> \<exists>m. generateMelody u p = Inr m"
  using resolvedScale_own [of "key p"] generateMelody_own [of p _ u] by blast

section \<open>The generator: one pass of the loop body\<close>

lemma noteStep_Own_fields:
  assumes "noteStep u (Own xs) (Own e) c k t lp = Inr (n, lp')"
  shows "time n = t" and "lp' = Some (pitch n)"
    and "note_duration n =
           Math_max (Num (1/8))
             (jmul (Num (1/4))
                (jadd (Num 1) (jmul (jmul (jsub (Num (u (k + 2))) (Num (1/2))) (rhythmVariety e)) c)))"
    and "velocity n = Math_floor (jadd (Num 60) (jmul (jmul (Num (u (k + 3))) (Num 40)) c))"
    and "pitch n =
           jadd (toNumber (elemAt xs
                   (Math_max (Num 0)
                      (Math_min (jsub (Num (real (length xs))) (Num 1))
                         (jadd (Num (of_int (if indexOf xs lp = - 1 then 0 else indexOf xs lp)))
                            (Math_floor
                               (jmul (jmul (jmul (jsub (Num (u k)) (Num (1/2))) (Num 2)) (jumpRange e)) c)))))))
             (if jgt (Num (u (k + 1))) (lit (8/10)) then Num 12 else Num 0)"
  using assms by (auto simp: noteStep_def readField_def Let_def)

lemma duration_floor:
  "\<exists>d. Math_max (Num (1/8))
          (jmul (Num (1/4)) (jadd (Num 1) (jmul (jmul (jsub (Num a) (Num (1/2))) (Num rv)) (Num cr))))
        = Num d \<and> 1/8 \<le> d"
  by simp

lemma round64_60: "round64 60 = 60" using round64_of_int [of 60] by simp
lemma round64_40: "round64 40 = 40" using round64_of_int [of 40] by simp
lemma round64_100: "round64 100 = 100" using round64_of_int [of 100] by simp

lemma round64_nonneg: "0 \<le> x \<Longrightarrow> 0 \<le> round64 x"
  using round64_mono [of 0 x] by (simp add: round64_zero)

lemma velocity_bounds:
  assumes "0 \<le> a" "a < 1" "0 \<le> cr"
  shows "\<exists>v::int. Math_floor (jadd (Num 60) (jmul (jmul (Num a) (Num 40)) (Num cr))) = Num (of_int v)
           \<and> 60 \<le> v \<and> v \<le> \<lfloor>round64 (60 + round64 (40 * cr))\<rfloor>"
proof -
  define x where "x = round64 (a * 40)"
  define y where "y = round64 (x * cr)"
  define s where "s = round64 (60 + y)"
  have x0: "0 \<le> x" unfolding x_def using assms by (intro round64_nonneg) simp
  have "round64 (a * 40) \<le> round64 40" using assms by (intro round64_mono) simp
  then have x40: "x \<le> 40" by (simp add: x_def round64_40)
  have y0: "0 \<le> y" unfolding y_def using x0 assms by (intro round64_nonneg) simp
  have "x * cr \<le> 40 * cr" using x40 assms by (intro mult_right_mono) simp_all
  then have yb: "y \<le> round64 (40 * cr)" unfolding y_def by (rule round64_mono)
  have "round64 60 \<le> round64 (60 + y)" using y0 by (intro round64_mono) simp
  then have s60: "60 \<le> s" by (simp add: s_def round64_60)
  have sb: "s \<le> round64 (60 + round64 (40 * cr))"
    unfolding s_def using yb by (intro round64_mono) simp
  have "Math_floor (jadd (Num 60) (jmul (jmul (Num a) (Num 40)) (Num cr))) = Num (of_int \<lfloor>s\<rfloor>)"
    by (simp add: s_def y_def x_def)
  moreover have "60 \<le> \<lfloor>s\<rfloor>" using s60 by linarith
  moreover have "\<lfloor>s\<rfloor> \<le> \<lfloor>round64 (60 + round64 (40 * cr))\<rfloor>" using sb by (rule floor_mono)
  ultimately show ?thesis by blast
qed

lemma velocity_cap:
  assumes "cr \<le> 1"
  shows "\<lfloor>round64 (60 + round64 (40 * cr))\<rfloor> \<le> 100"
proof -
  have "round64 (40 * cr) \<le> round64 40" using assms by (intro round64_mono) simp
  then have "60 + round64 (40 * cr) \<le> 100" by (simp add: round64_40)
  then have "round64 (60 + round64 (40 * cr)) \<le> round64 100" by (rule round64_mono)
  then have "round64 (60 + round64 (40 * cr)) \<le> 100" by (simp add: round64_100)
  then show ?thesis by linarith
qed

lemma round64_pow53: "round64 (2 ^ 53) = 2 ^ 53"
  using round64_exact [of "2 ^ 52" 1] by simp

lemma round64_int_small:
  assumes "0 < round64 (of_int z)" "round64 (of_int z) < 2 ^ 53"
  shows "round64 (of_int z) = of_int z"
proof -
  have "0 < z"
  proof (rule ccontr)
    assume "\<not> 0 < z"
    then have "(of_int z :: real) \<le> 0" by simp
    from round64_mono [OF this] assms(1) show False by (simp add: round64_zero)
  qed
  have "z < 2 ^ 53"
  proof (rule ccontr)
    assume "\<not> z < 2 ^ 53"
    then have "(2::real) ^ 53 \<le> of_int z"
      by (metis not_less of_int_le_iff of_int_numeral of_int_power)
    from round64_mono [OF this] have "(2::real) ^ 53 \<le> round64 (of_int z)"
      by (simp only: round64_pow53)
    with assms(2) show False by simp
  qed
  with \<open>0 < z\<close> show ?thesis by (intro round64_of_int) simp
qed

lemma elemAt_nat: "j < length xs \<Longrightarrow> elemAt xs (Num (real j)) = Some (Num (xs ! j))"
  by (simp add: elemAt_def)

lemma clamp_index:
  assumes "xs \<noteq> []" "real (length xs) \<le> 2 ^ 53"
  shows "\<exists>j<length xs.
           elemAt xs (Math_max (Num 0) (Math_min (jsub (Num (real (length xs))) (Num 1)) (Num (round64 (of_int z)))))
             = Some (Num (xs ! j))"
proof -
  define r where "r = round64 (of_int z)"
  define L where "L = real (length xs) - 1"
  have L0: "0 \<le> L" using assms(1) by (cases xs) (simp_all add: L_def)
  have "\<bar>int (length xs) - 1\<bar> < 2 ^ 53" using assms by (cases xs) simp_all
  from round64_of_int [OF this] have "round64 (real (length xs) - 1) = real (length xs) - 1"
    by simp
  then have len1: "jsub (Num (real (length xs))) (Num 1) = Num L" by (simp add: L_def)
  have c: "Math_max (Num 0) (Math_min (Num L) (Num r)) = Num (max 0 (min L r))" by simp
  have "\<exists>j<length xs. max 0 (min L r) = real j"
  proof -
    consider "r \<le> 0" | "L \<le> r" | "0 < r" "r < L" by linarith
    then show ?thesis
    proof cases
      case 1
      then have "max 0 (min L r) = real 0" using L0 by simp
      moreover have "0 < length xs" using assms(1) by simp
      ultimately show ?thesis by blast
    next
      case 2
      then have "max 0 (min L r) = real (length xs - 1)"
        using L0 assms(1) by (cases xs) (simp_all add: L_def)
      moreover have "length xs - 1 < length xs" using assms(1) by simp
      ultimately show ?thesis by blast
    next
      case 3
      have "r < 2 ^ 53" using 3 assms(2) by (simp add: L_def)
      with 3 have rz: "r = of_int z" unfolding r_def by (intro round64_int_small) simp_all
      with 3 have z: "0 < z" "real_of_int z < real (length xs)" by (simp_all add: L_def)
      then have "nat z < length xs" by linarith
      moreover have "max 0 (min L r) = real (nat z)" using 3 z rz by simp
      ultimately show ?thesis by blast
    qed
  qed
  then obtain j where "j < length xs" "max 0 (min L r) = real j" by blast
  then show ?thesis unfolding len1 r_def [symmetric] c
    using elemAt_nat [of j xs] by auto
qed

lemma pitch_in_scale:
  assumes xs: "xs \<noteq> []" "real (length xs) \<le> 2 ^ 53"
    and ints: "\<forall>x\<in>set xs. \<exists>m::int. x = of_int m \<and> \<bar>m\<bar> < 2 ^ 52"
    and jr: "jumpRange e = Num jr"
    and step: "noteStep u (Own xs) (Own e) (Num cr) k t lp = Inr (n, lp')"
  shows "\<exists>x\<in>set xs. pitch n = Num x \<or> pitch n = Num (x + 12)"
proof -
  define si where "si = (if indexOf xs lp = - 1 then 0 else indexOf xs lp)"
  define pv where "pv = \<lfloor>round64 (round64 (round64 (round64 (u k - 1/2) * 2) * jr) * cr)\<rfloor>"
  have "jadd (Num (of_int si))
          (Math_floor (jmul (jmul (jmul (jsub (Num (u k)) (Num (1/2))) (Num 2)) (Num jr)) (Num cr)))
        = Num (round64 (of_int (si + pv)))"
    by (simp add: pv_def)
  with noteStep_Own_fields(5) [OF step] jr
  have p: "pitch n =
       jadd (toNumber (elemAt xs (Math_max (Num 0)
          (Math_min (jsub (Num (real (length xs))) (Num 1)) (Num (round64 (of_int (si + pv))))))))
        (if jgt (Num (u (k + 1))) (lit (8/10)) then Num 12 else Num 0)"
    by (simp add: si_def)
  from clamp_index [OF xs, of "si + pv"] obtain j where
    j: "j < length xs" "elemAt xs (Math_max (Num 0)
          (Math_min (jsub (Num (real (length xs))) (Num 1)) (Num (round64 (of_int (si + pv))))))
          = Some (Num (xs ! j))" by blast
  from j(1) have mem: "xs ! j \<in> set xs" by simp
  with ints obtain m :: int where m: "xs ! j = of_int m" "\<bar>m\<bar> < 2 ^ 52" by blast
  have a: "round64 (of_int m + 12) = of_int m + 12"
    using round64_of_int [of "m + 12"] m(2) by simp
  have b: "round64 (of_int m) = of_int m"
    using round64_of_int [of m] m(2) by simp
  have "pitch n = Num (xs ! j) \<or> pitch n = Num (xs ! j + 12)"
    unfolding p j(2) using a b by (simp add: m(1))
  with mem show ?thesis by blast
qed

section \<open>The generator: whole runs\<close>

lemma steps_forall:
  assumes "steps u sc st c k t lp ns"
    and "\<And>k t lp n lp'. noteStep u sc st c k t lp = Inr (n, lp') \<Longrightarrow> P n"
  shows "\<forall>n\<in>set ns. P n"
  using assms(1)
proof (induction ns arbitrary: k t lp)
  case Nil
  then show ?case by simp
next
  case (Cons n ns)
  from Cons.prems obtain lp' where
    s: "noteStep u sc st c k t lp = Inr (n, lp')"
       "steps u sc st c (k + 4) (jadd t (note_duration n)) lp' ns"
    by (auto split: sum.splits)
  from assms(2) [OF s(1)] Cons.IH [OF s(2)] show ?case by simp
qed

lemma steps_Cons:
  assumes "steps u sc st c k t lp (n # ns)"
  obtains lp' where "noteStep u sc st c k t lp = Inr (n, lp')"
    and "steps u sc st c (k + 4) (jadd t (note_duration n)) lp' ns"
  using assms by (auto split: sum.splits)

lemma noteStep_time:
  "noteStep u sc st c k t lp = Inr (n, lp') \<Longrightarrow> time n = t"
  by (auto simp: noteStep_def readField_def Let_def split: sum.splits propval.splits)

lemma steps_contiguous:
  assumes "steps u (Own xs) (Own e) (Num cr) k (Num t) lp ns"
    and "rhythmVariety e = Num rv" and "round64 t = t"
  shows "contiguous (Num t) ns"
  using assms(1,3)
proof (induction ns arbitrary: k t lp)
  case Nil
  then show ?case by simp
next
  case (Cons n ns)
  from Cons.prems(1) obtain lp' where
    s: "noteStep u (Own xs) (Own e) (Num cr) k (Num t) lp = Inr (n, lp')"
       "steps u (Own xs) (Own e) (Num cr) (k + 4) (jadd (Num t) (note_duration n)) lp' ns"
    by (rule steps_Cons)
  have tn: "time n = Num t" using noteStep_Own_fields(1) [OF s(1)] .
  obtain d where d: "note_duration n = Num d" "1/8 \<le> d"
    using noteStep_Own_fields(3) [OF s(1)] duration_floor [of "u (k + 2)" rv cr]
    by (auto simp: assms(2))
  have next_t: "jadd (Num t) (note_duration n) = Num (round64 (t + d))" by (simp add: d)
  have "round64 t \<le> round64 (t + d)" using d(2) by (intro round64_mono) simp
  then have le: "t \<le> round64 (t + d)" by (simp add: Cons.prems(2))
  have "contiguous (Num (round64 (t + d))) ns"
    using s(2) unfolding next_t by (rule Cons.IH) (rule round64_idem)
  with tn le show ?case by (simp add: d)
qed

lemma contiguous_hd: "contiguous t ns \<Longrightarrow> ns \<noteq> [] \<Longrightarrow> time (hd ns) = t"
  by (cases ns) simp_all

lemma noteCount_exact:
  assumes "round64 (real d) = real d"
  shows "jmul (Num (real d)) (Num 4) = Num (real (d * 4))"
proof -
  have "round64 (real d * 2 powr of_int 2) = real d * 2 powr of_int 2"
    using assms by (rule round64_scale)
  then show ?thesis by simp
qed

lemma generateMelody_length:
  assumes "generateMelody u p = Inr m" "duration p = Num (real d)" "round64 (real d) = real d"
    "0 < d"
  shows "length (notes m) = d * 4"
proof -
  have nc: "jmul (duration p) (Num 4) = Num (real (d * 4))"
    using noteCount_exact [OF assms(3)] by (simp only: assms(2))
  show ?thesis
  proof (cases "key p \<in> set objectPrototypeNames")
    case True
    from generateMelody_Inr_inherited(2) [OF assms(1) True]
    have "\<not> jlt (Num 0) (Num (real (d * 4)))" unfolding nc .
    with assms(4) show ?thesis by simp
  next
    case False
    from generateMelody_Inr_own(1) [OF assms(1) False] obtain xs lp where
      "genLoop u (Own xs) (resolvedSettings (genre p)) (creativity p)
          (jmul (duration p) (Num 4)) 0 1 (Num 0) lp [] = Inr (notes m)" by blast
    then have "genLoop u (Own xs) (resolvedSettings (genre p)) (creativity p)
          (Num (real (d * 4))) 0 1 (Num 0) lp [] = Inr (notes m)"
      unfolding nc .
    from genLoop_length [OF this] show ?thesis by simp
  qed
qed

lemma generateMelody_contiguous:
  assumes "generateMelody u p = Inr m" "creativity p = Num c"
    "genre p \<notin> set objectPrototypeNames"
  shows "contiguous (Num 0) (notes m)"
proof (cases "key p \<in> set objectPrototypeNames")
  case True
  from generateMelody_Inr_inherited(1) [OF assms(1) True] show ?thesis by simp
next
  case False
  from generateMelody_Inr_own(1) [OF assms(1) False] obtain xs lp where
    s: "steps u (Own xs) (resolvedSettings (genre p)) (creativity p) 1 (Num 0) lp (notes m)"
    by blast
  from resolvedSettings_own [OF assms(3)] obtain e where
    e: "resolvedSettings (genre p) = Own e" "e \<in> snd ` set genreSettings" by blast
  from genreSettings_entries [OF e(2)] obtain rv where rv: "rhythmVariety e = Num rv" by blast
  from s have "steps u (Own xs) (Own e) (Num c) 1 (Num 0) lp (notes m)"
    by (simp add: e(1) assms(2))
  then show ?thesis using rv by (rule steps_contiguous) (rule round64_zero)
qed

lemma generateMelody_first_time:
  assumes "generateMelody u p = Inr m" "notes m \<noteq> []"
  shows "time (hd (notes m)) = Num 0"
proof (cases "key p \<in> set objectPrototypeNames")
  case True
  from generateMelody_Inr_inherited(1) [OF assms(1) True] assms(2) show ?thesis by simp
next
  case False
  from generateMelody_Inr_own(1) [OF assms(1) False] obtain xs lp where
    s: "steps u (Own xs) (resolvedSettings (genre p)) (creativity p) 1 (Num 0) lp (notes m)"
    by blast
  from assms(2) obtain n ns where ns: "notes m = n # ns" by (cases "notes m") simp_all
  from s [unfolded ns] obtain lp' where
    "noteStep u (Own xs) (resolvedSettings (genre p)) (creativity p) 1 (Num 0) lp = Inr (n, lp')"
    by (rule steps_Cons)
  from noteStep_time [OF this] ns show ?thesis by simp
qed

section \<open>The generator: results\<close>

text \<open>
  The results are stated for the first version of the generator; the second version returns
  the same outcome (\<open>generateMelody_001_eq\<close> below), so they hold of it as well.
\<close>

lemma not_inherited [simp]:
  "''Am'' \<notin> set objectPrototypeNames" "''C'' \<notin> set objectPrototypeNames"
  "''ambient'' \<notin> set objectPrototypeNames" "''classical'' \<notin> set objectPrototypeNames"
  by (simp_all add: objectPrototypeNames_def)

lemma round64_numeral: "(numeral w :: int) < 2 ^ 53 \<Longrightarrow> round64 (numeral w) = numeral w"
  using round64_of_int [of "numeral w"] by simp

lemma round64_one: "round64 1 = 1"
  using round64_of_int [of 1] by simp

text \<open>
  C1: for a duration that is a positive integer \<open>d\<close> (as a double, which rounding leaves
  unchanged; every integer up to \<open>2^53\<close> is one), whatever the draws, every melody the
  generator returns has exactly \<open>d * 4\<close> notes; and it returns one whenever the key is not
  a property name inherited from \<open>Object.prototype\<close>.
\<close>

theorem C1_note_count:
  assumes "duration p = Num (real d)" and "0 < d" and "round64 (real d) = real d"
  shows "(\<forall>m. generateMelody u p = Inr m \<longrightarrow> length (notes m) = d * 4)
       \<and> (key p \<notin> set objectPrototypeNames \<longrightarrow> (\<exists>m. generateMelody u p = Inr m))"
  using generateMelody_length [OF _ assms(1,3,2)] generateMelody_returns by blast

text \<open>The scenario of 8 bars: a melody is returned and it has 32 notes.\<close>

theorem C1_note_count_witness:
  "\<exists>m. generateMelody halfDraws ambientScenario = Inr m \<and> length (notes m) = 32"
proof -
  have d: "duration ambientScenario = Num (real 8)" by (simp add: ambientScenario_def)
  have r: "round64 (real 8) = real 8" by (simp add: round64_numeral)
  have k: "key ambientScenario \<notin> set objectPrototypeNames" by (simp add: ambientScenario_def)
  from C1_note_count [OF d _ r, of halfDraws] k show ?thesis by auto
qed

text \<open>
  C2, as the program has it: when the creativity is a finite number (neither \<open>NaN\<close> nor an
  infinity) and the genre is not a property name inherited from \<open>Object.prototype\<close>, every
  melody returned has its first note at time 0, and for every adjacent pair of notes
  \<open>time <= next time\<close> and \<open>time + duration == next time\<close> hold, in the program's own
  arithmetic and comparisons.
\<close>

theorem C2_timeline:
  assumes "generateMelody u p = Inr m" and "creativity p = Num c"
    and "genre p \<notin> set objectPrototypeNames"
  shows "(notes m \<noteq> [] \<longrightarrow> time (hd (notes m)) = Num 0)
       \<and> (\<forall>i. i + 1 < length (notes m) \<longrightarrow>
             jle (time (notes m ! i)) (time (notes m ! (i + 1)))
           \<and> jeq (jadd (time (notes m ! i)) (note_duration (notes m ! i))) (time (notes m ! (i + 1))))"
  using generateMelody_first_time [OF assms(1)]
    contiguous_nth [OF generateMelody_contiguous [OF assms]]
  by blast

text \<open>The scenario of 8 bars: first time 0, and the first two notes are contiguous.\<close>

theorem C2_timeline_witness:
  "\<exists>m. generateMelody halfDraws ambientScenario = Inr m
       \<and> time (hd (notes m)) = Num 0
       \<and> jle (time (notes m ! 0)) (time (notes m ! 1))
       \<and> jeq (jadd (time (notes m ! 0)) (note_duration (notes m ! 0))) (time (notes m ! 1))"
proof -
  obtain m where m: "generateMelody halfDraws ambientScenario = Inr m"
    using generateMelody_returns [of ambientScenario halfDraws] by (auto simp: ambientScenario_def)
  have "length (notes m) = 8 * 4"
    by (rule generateMelody_length [OF m]) (simp_all add: ambientScenario_def round64_numeral)
  then have len: "notes m \<noteq> []" "0 + 1 < length (notes m)" by auto
  have c: "creativity ambientScenario = Num (1/2)" by (simp add: ambientScenario_def)
  have g: "genre ambientScenario \<notin> set objectPrototypeNames" by (simp add: ambientScenario_def)
  from C2_timeline [OF m c g] len m show ?thesis by auto
qed

lemma steps_first:
  assumes "steps u sc st c k t lp ns" "ns \<noteq> []"
  shows "\<exists>lp'. noteStep u sc st c k t lp = Inr (hd ns, lp')"
  using assms by (cases ns) (auto split: sum.splits)

lemma steps_second_time:
  assumes "steps u sc st c k t lp ns" "1 < length ns"
  shows "time (ns ! 1) = jadd t (note_duration (ns ! 0))"
proof -
  from assms(2) obtain a b rest where ns: "ns = a # b # rest"
    by (cases ns; cases "tl ns") auto
  from assms(1) [unfolded ns] obtain lp' where
    "steps u sc st c (k + 4) (jadd t (note_duration a)) lp' (b # rest)" by (rule steps_Cons)
  then obtain lp'' where "noteStep u sc st c (k + 4) (jadd t (note_duration a)) lp' = Inr (b, lp'')"
    by (rule steps_Cons)
  from noteStep_time [OF this] show ?thesis by (simp add: ns)
qed

lemma generateMelody_C_classical:
  assumes "key p = ''C''" "genre p = ''classical''"
  obtains ns lp where
    "generateMelody u p =
       Inr \<lparr>notes = ns, melody_tempo = tempo p, melody_key = key p, melody_genre = genre p\<rparr>"
    "genLoop u (Own [60, 62, 64, 65, 67, 69, 71, 72])
        (Own \<lparr>jumpRange = Num 3, rhythmVariety = lit (3/10)\<rparr>) (creativity p)
        (jmul (duration p) (Num 4)) 0 1 (Num 0) lp [] = Inr ns"
    "steps u (Own [60, 62, 64, 65, 67, 69, 71, 72])
        (Own \<lparr>jumpRange = Num 3, rhythmVariety = lit (3/10)\<rparr>) (creativity p) 1 (Num 0) lp ns"
proof -
  have sc: "resolvedScale (key p) = Own [60, 62, 64, 65, 67, 69, 71, 72]"
    by (simp add: assms resolvedScale_def getProp_def orElse_def scalePatterns_def)
  have st: "resolvedSettings (genre p) = Own \<lparr>jumpRange = Num 3, rhythmVariety = lit (3/10)\<rparr>"
    by (simp add: assms resolvedSettings_def getProp_def orElse_def genreSettings_def)
  from generateMelody_own [OF sc, of u] that show ?thesis unfolding st by blast
qed

lemma nanCreativity_times:
  "length (notesOf (generateMelody halfDraws nanCreativity)) = 4
   \<and> \<not> jle (time (notesOf (generateMelody halfDraws nanCreativity) ! 0))
            (time (notesOf (generateMelody halfDraws nanCreativity) ! 1))"
proof -
  obtain ns lp where
    g: "generateMelody halfDraws nanCreativity =
       Inr \<lparr>notes = ns, melody_tempo = tempo nanCreativity, melody_key = key nanCreativity,
             melody_genre = genre nanCreativity\<rparr>"
    and s: "steps halfDraws (Own [60, 62, 64, 65, 67, 69, 71, 72])
        (Own \<lparr>jumpRange = Num 3, rhythmVariety = lit (3/10)\<rparr>) (creativity nanCreativity)
        1 (Num 0) lp ns"
    by (rule generateMelody_C_classical [of nanCreativity halfDraws])
       (simp_all add: nanCreativity_def)
  have n: "notesOf (generateMelody halfDraws nanCreativity) = ns" by (simp add: g notesOf_def)
  have "length (notes \<lparr>notes = ns, melody_tempo = tempo nanCreativity,
      melody_key = key nanCreativity, melody_genre = genre nanCreativity\<rparr>) = 1 * 4"
    by (rule generateMelody_length [OF g]) (simp_all add: nanCreativity_def round64_one)
  then have len: "length ns = 4" by simp
  then have ne: "ns \<noteq> []" by auto
  from steps_first [OF s ne] obtain lp' where
    "noteStep halfDraws (Own [60, 62, 64, 65, 67, 69, 71, 72])
        (Own \<lparr>jumpRange = Num 3, rhythmVariety = lit (3/10)\<rparr>) (creativity nanCreativity)
        1 (Num 0) lp = Inr (hd ns, lp')" by blast
  from noteStep_Own_fields(3) [OF this] have "note_duration (hd ns) = NaN"
    by (simp add: nanCreativity_def lit_def)
  then have "note_duration (ns ! 0) = NaN" using ne by (simp add: hd_conv_nth)
  moreover have "time (ns ! 1) = jadd (Num 0) (note_duration (ns ! 0))"
    using s by (rule steps_second_time) (simp add: len)
  ultimately have "time (ns ! 1) = NaN" by simp
  then show ?thesis unfolding n using len by simp
qed

lemma generateMelody_ranges:
  assumes "generateMelody u p = Inr m" and "creativity p = Num c" and "0 \<le> c" and "c \<le> 1"
    and "genre p \<notin> set objectPrototypeNames" and "\<forall>k. 0 \<le> u k \<and> u k < 1"
  shows "\<forall>n\<in>set (notes m).
           (\<exists>d. note_duration n = Num d \<and> 1/8 \<le> d)
         \<and> (\<exists>v::int. velocity n = Num (of_int v) \<and> 60 \<le> v
                \<and> v \<le> \<lfloor>round64 (60 + round64 (40 * c))\<rfloor> \<and> v \<le> 100)"
proof (cases "key p \<in> set objectPrototypeNames")
  case True
  from generateMelody_Inr_inherited(1) [OF assms(1) True] show ?thesis by simp
next
  case False
  from generateMelody_Inr_own(1) [OF assms(1) False] obtain xs lp where
    s: "steps u (Own xs) (resolvedSettings (genre p)) (creativity p) 1 (Num 0) lp (notes m)"
    by blast
  from resolvedSettings_own [OF assms(5)] obtain e where
    e: "resolvedSettings (genre p) = Own e" "e \<in> snd ` set genreSettings" by blast
  from genreSettings_entries [OF e(2)] obtain rv where rv: "rhythmVariety e = Num rv" by blast
  from s have s': "steps u (Own xs) (Own e) (Num c) 1 (Num 0) lp (notes m)"
    by (simp add: e(1) assms(2))
  show ?thesis
  proof (rule steps_forall [OF s'])
    fix k t lp n lp'
    assume step: "noteStep u (Own xs) (Own e) (Num c) k t lp = Inr (n, lp')"
    have "\<exists>d. note_duration n = Num d \<and> 1/8 \<le> d"
      using noteStep_Own_fields(3) [OF step] duration_floor [of "u (k + 2)" rv c]
      by (simp add: rv)
    moreover from assms(6) have "0 \<le> u (k + 3)" "u (k + 3) < 1" by simp_all
    from velocity_bounds [OF this assms(3)] obtain v :: int where
      v: "velocity n = Num (of_int v)" "60 \<le> v" "v \<le> \<lfloor>round64 (60 + round64 (40 * c))\<rfloor>"
      unfolding noteStep_Own_fields(4) [OF step] by blast
    from v(3) velocity_cap [OF assms(4)] have "v \<le> 100" by linarith
    with v
    have "\<exists>v::int. velocity n = Num (of_int v) \<and> 60 \<le> v
                \<and> v \<le> \<lfloor>round64 (60 + round64 (40 * c))\<rfloor> \<and> v \<le> 100"
      by blast
    ultimately show "(\<exists>d. note_duration n = Num d \<and> 1/8 \<le> d)
         \<and> (\<exists>v::int. velocity n = Num (of_int v) \<and> 60 \<le> v
                \<and> v \<le> \<lfloor>round64 (60 + round64 (40 * c))\<rfloor> \<and> v \<le> 100)" by blast
  qed
qed

text \<open>
  C5, as the program has it: for a creativity in \<open>[0.1, 1.0]\<close>, a genre that is not a property
  name inherited from \<open>Object.prototype\<close>, and draws in \<open>[0, 1)\<close>, every note of a returned
  melody has a duration \<open>>= 0.125\<close> and an integer velocity \<open>v\<close> with \<open>0 <= v <= 127\<close>; more
  precisely \<open>60 <= v <= 60 + 40 * creativity\<close>, the bound computed in doubles and included,
  so \<open>v <= 100\<close>.
\<close>

theorem C5_note_ranges:
  assumes "generateMelody u p = Inr m" and "creativity p = Num c" and "1/10 \<le> c" and "c \<le> 1"
    and "genre p \<notin> set objectPrototypeNames" and "\<forall>k. 0 \<le> u k \<and> u k < 1"
  shows "\<forall>n\<in>set (notes m).
           (\<exists>d. note_duration n = Num d \<and> 1/8 \<le> d)
         \<and> (\<exists>v::int. velocity n = Num (of_int v) \<and> 0 \<le> v \<and> v \<le> 127 \<and> 60 \<le> v
                \<and> v \<le> \<lfloor>round64 (60 + round64 (40 * c))\<rfloor> \<and> v \<le> 100)"
proof -
  have c0: "0 \<le> c" using assms(3) by simp
  from generateMelody_ranges [OF assms(1,2) c0 assms(4,5,6)] show ?thesis by fastforce
qed

lemma generateMelody_nonempty:
  assumes "generateMelody u p = Inr m" "duration p = Num (real d)" "round64 (real d) = real d"
    "0 < d"
  shows "notes m \<noteq> []" "hd (notes m) \<in> set (notes m)"
proof -
  from generateMelody_length [OF assms] assms(4) show "notes m \<noteq> []" by auto
  then show "hd (notes m) \<in> set (notes m)" by simp
qed

text \<open>
  The scenario of 8 bars with creativity 0.5: the first note has a duration \<open>>= 0.125\<close> and
  a velocity between 60 and 80.
\<close>

theorem C5_note_ranges_witness:
  "\<exists>m. generateMelody halfDraws ambientScenario = Inr m
       \<and> (\<exists>d. note_duration (hd (notes m)) = Num d \<and> 1/8 \<le> d)
       \<and> (\<exists>v::int. velocity (hd (notes m)) = Num (of_int v) \<and> 60 \<le> v \<and> v \<le> 80)"
proof -
  obtain m where m: "generateMelody halfDraws ambientScenario = Inr m"
    using generateMelody_returns [of ambientScenario halfDraws] by (auto simp: ambientScenario_def)
  have h: "hd (notes m) \<in> set (notes m)"
    by (rule generateMelody_nonempty(2) [OF m, of 8])
       (simp_all add: ambientScenario_def round64_numeral)
  have c: "creativity ambientScenario = Num (1/2)" by (simp add: ambientScenario_def)
  have g: "genre ambientScenario \<notin> set objectPrototypeNames" by (simp add: ambientScenario_def)
  have u: "\<forall>k. 0 \<le> halfDraws k \<and> halfDraws k < 1" by (simp add: halfDraws_def)
  have b: "\<lfloor>round64 (60 + round64 (40 * (1/2)))\<rfloor> = 80" by (simp add: round64_numeral)
  from C5_note_ranges [OF m c _ _ g u] h b
  have "(\<exists>d. note_duration (hd (notes m)) = Num d \<and> 1/8 \<le> d)
       \<and> (\<exists>v::int. velocity (hd (notes m)) = Num (of_int v) \<and> 60 \<le> v \<and> v \<le> 80)"
    by fastforce
  with m show ?thesis by blast
qed

lemma round64_top_times_40: "round64 ((1 - 1 / 2 ^ 52) * 40) = 40 - 1 / 2 ^ 47"
  by (subst round64_eval [where e = 5]) (simp_all add: rne_def powr_minus_divide)

lemma round64_tie_100: "round64 (60 + (40 - 1 / 2 ^ 47)) = 100"
  by (subst round64_eval [where e = 6]) (simp_all add: rne_def powr_minus_divide)

lemma velocity_top: "Math_floor (jadd (Num 60) (jmul (jmul (Num (1 - 1 / 2 ^ 52)) (Num 40)) (Num 1))) = Num 100"
proof -
  define x where "x = round64 ((1 - 1 / 2 ^ 52) * 40)"
  have x: "x = 40 - 1 / 2 ^ 47" unfolding x_def by (rule round64_top_times_40)
  have "round64 (x * 1) = x" unfolding x_def by (simp add: round64_idem)
  moreover have "round64 (60 + x) = 100" unfolding x by (rule round64_tie_100)
  ultimately have "\<lfloor>round64 (60 + round64 (x * 1))\<rfloor> = 100" by simp
  moreover have "Math_floor (jadd (Num 60) (jmul (jmul (Num (1 - 1 / 2 ^ 52)) (Num 40)) (Num 1)))
      = Num (of_int \<lfloor>round64 (60 + round64 (x * 1))\<rfloor>)"
    unfolding x_def by (simp only: jadd.simps jmul.simps Math_floor.simps)
  ultimately show ?thesis by simp
qed

lemma topDraws_velocity:
  "(\<forall>k. 0 \<le> topDraws k \<and> topDraws k < 1)
   \<and> creativity fullCreativity = Num 1
   \<and> velocity (hd (notesOf (generateMelody topDraws fullCreativity))) = Num 100
   \<and> \<not> (100 < 60 + 40 * (1::real))"
proof -
  obtain ns lp where
    g: "generateMelody topDraws fullCreativity =
       Inr \<lparr>notes = ns, melody_tempo = tempo fullCreativity, melody_key = key fullCreativity,
             melody_genre = genre fullCreativity\<rparr>"
    and s: "steps topDraws (Own [60, 62, 64, 65, 67, 69, 71, 72])
        (Own \<lparr>jumpRange = Num 3, rhythmVariety = lit (3/10)\<rparr>) (creativity fullCreativity)
        1 (Num 0) lp ns"
    by (rule generateMelody_C_classical [of fullCreativity topDraws])
       (simp_all add: fullCreativity_def)
  have n: "notesOf (generateMelody topDraws fullCreativity) = ns" by (simp add: g notesOf_def)
  have "notes \<lparr>notes = ns, melody_tempo = tempo fullCreativity,
      melody_key = key fullCreativity, melody_genre = genre fullCreativity\<rparr> \<noteq> []"
    by (rule generateMelody_nonempty(1) [OF g, of 1])
       (simp_all add: fullCreativity_def round64_one)
  then have ne: "ns \<noteq> []" by simp
  from steps_first [OF s ne] obtain lp' where
    "noteStep topDraws (Own [60, 62, 64, 65, 67, 69, 71, 72])
        (Own \<lparr>jumpRange = Num 3, rhythmVariety = lit (3/10)\<rparr>) (creativity fullCreativity)
        1 (Num 0) lp = Inr (hd ns, lp')" by blast
  from noteStep_Own_fields(4) [OF this]
  have "velocity (hd ns) =
      Math_floor (jadd (Num 60) (jmul (jmul (Num (topDraws (1 + 3))) (Num 40)) (creativity fullCreativity)))" .
  moreover have "topDraws (1 + 3) = 1 - 1 / 2 ^ 52" by (simp add: topDraws_def)
  moreover have "creativity fullCreativity = Num 1" by (simp add: fullCreativity_def)
  ultimately have "velocity (hd ns) = Num 100" by (simp only: velocity_top)
  moreover have "\<forall>k. 0 \<le> topDraws k \<and> topDraws k < 1" by (simp add: topDraws_def)
  ultimately show ?thesis unfolding n by (simp add: fullCreativity_def)
qed

lemma noteStep_Inherited_fields:
  assumes "noteStep u (Own xs) Inherited c k t lp = Inr (n, lp')"
  shows "note_duration n = NaN" and "pitch n = NaN"
  using assms by (auto simp: noteStep_def readField_def Let_def elemAt_def)

lemma constructorGenre_run:
  obtains ns lp where
    "generateMelody u constructorGenre =
       Inr \<lparr>notes = ns, melody_tempo = tempo constructorGenre, melody_key = key constructorGenre,
             melody_genre = genre constructorGenre\<rparr>"
    "length ns = 4"
    "steps u (Own [60, 62, 64, 65, 67, 69, 71, 72]) Inherited (Num (1/2)) 1 (Num 0) lp ns"
proof -
  have sc: "resolvedScale (key constructorGenre) = Own [60, 62, 64, 65, 67, 69, 71, 72]"
    by (simp add: constructorGenre_def resolvedScale_def getProp_def orElse_def scalePatterns_def)
  have st: "resolvedSettings (genre constructorGenre) = Inherited"
    by (rule resolvedSettings_inherited) (simp add: constructorGenre_def objectPrototypeNames_def)
  from generateMelody_own [OF sc, of u] obtain lp ns where
    g: "generateMelody u constructorGenre =
       Inr \<lparr>notes = ns, melody_tempo = tempo constructorGenre, melody_key = key constructorGenre,
             melody_genre = genre constructorGenre\<rparr>"
    and s: "steps u (Own [60, 62, 64, 65, 67, 69, 71, 72])
        (resolvedSettings (genre constructorGenre)) (creativity constructorGenre) 1 (Num 0) lp ns"
    by blast
  have "length (notes \<lparr>notes = ns, melody_tempo = tempo constructorGenre,
      melody_key = key constructorGenre, melody_genre = genre constructorGenre\<rparr>) = 1 * 4"
    by (rule generateMelody_length [OF g]) (simp_all add: constructorGenre_def round64_one)
  then have len: "length ns = 4" by simp
  from s [unfolded st]
  have "steps u (Own [60, 62, 64, 65, 67, 69, 71, 72]) Inherited (Num (1/2)) 1 (Num 0) lp ns"
    by (simp add: constructorGenre_def)
  with g len that show ?thesis by blast
qed

lemma constructorGenre_first_duration:
  "length (notesOf (generateMelody u constructorGenre)) = 4"
  "note_duration (notesOf (generateMelody u constructorGenre) ! 0) = NaN"
  "time (notesOf (generateMelody u constructorGenre) ! 1) = NaN"
proof -
  obtain ns lp where
    g: "generateMelody u constructorGenre =
       Inr \<lparr>notes = ns, melody_tempo = tempo constructorGenre, melody_key = key constructorGenre,
             melody_genre = genre constructorGenre\<rparr>"
    and len: "length ns = 4"
    and s: "steps u (Own [60, 62, 64, 65, 67, 69, 71, 72]) Inherited (Num (1/2)) 1 (Num 0) lp ns"
    by (rule constructorGenre_run)
  have n: "notesOf (generateMelody u constructorGenre) = ns" by (simp add: g notesOf_def)
  from len have ne: "ns \<noteq> []" by auto
  from steps_first [OF s ne] obtain lp' where
    "noteStep u (Own [60, 62, 64, 65, 67, 69, 71, 72]) Inherited (Num (1/2)) 1 (Num 0) lp
       = Inr (hd ns, lp')" by blast
  from noteStep_Inherited_fields(1) [OF this] ne have d: "note_duration (ns ! 0) = NaN"
    by (simp add: hd_conv_nth)
  have "time (ns ! 1) = jadd (Num 0) (note_duration (ns ! 0))"
    using s by (rule steps_second_time) (simp add: len)
  with d have t: "time (ns ! 1) = NaN" by simp
  show "length (notesOf (generateMelody u constructorGenre)) = 4"
    "note_duration (notesOf (generateMelody u constructorGenre) ! 0) = NaN"
    "time (notesOf (generateMelody u constructorGenre) ! 1) = NaN"
    unfolding n using len d t by simp_all
qed

lemma jle_NaN_right: "\<not> jle a NaN"
  by (cases a) simp_all

text \<open>
  C2 as stated, for every melody the generator returns, fails in two ways. With creativity
  \<open>NaN\<close> the first note's duration is \<open>NaN\<close>, so the second note's time is \<open>NaN\<close> and
  \<open>notes[0].time <= notes[1].time\<close> is false. The same happens with the genre
  \<open>"constructor"\<close>, whose settings are the inherited function and have no \<open>rhythmVariety\<close>.
\<close>

theorem C2_timeline_counterexample:
  "length (notesOf (generateMelody halfDraws nanCreativity)) = 4
   \<and> \<not> jle (time (notesOf (generateMelody halfDraws nanCreativity) ! 0))
            (time (notesOf (generateMelody halfDraws nanCreativity) ! 1))
   \<and> length (notesOf (generateMelody halfDraws constructorGenre)) = 4
   \<and> \<not> jle (time (notesOf (generateMelody halfDraws constructorGenre) ! 0))
            (time (notesOf (generateMelody halfDraws constructorGenre) ! 1))"
  using nanCreativity_times
  by (simp only: constructorGenre_first_duration jle_NaN_right not_False_eq_True simp_thms)

text \<open>
  C5 as stated fails in two ways. The velocity is not always below \<open>60 + 40 * creativity\<close>:
  for creativity 1.0, when the draw is the double just below 1, \<open>U * 40\<close> rounds to
  \<open>40 - 2^-47\<close> and \<open>60 + (40 - 2^-47)\<close>, halfway between two doubles, rounds to 100; the
  velocity is 100. And with the genre \<open>"constructor"\<close> and creativity 0.5 the first note's
  duration is \<open>NaN\<close>, for which \<open>duration >= 0.125\<close> is false.
\<close>

theorem C5_note_ranges_counterexample:
  "0 \<le> topDraws 4 \<and> topDraws 4 < 1
   \<and> creativity fullCreativity = Num 1
   \<and> velocity (hd (notesOf (generateMelody topDraws fullCreativity))) = Num 100
   \<and> \<not> (100 < 60 + 40 * (1::real))
   \<and> creativity constructorGenre = Num (1/2)
   \<and> \<not> jle (Num (1/8)) (note_duration (notesOf (generateMelody halfDraws constructorGenre) ! 0))"
proof -
  have "creativity constructorGenre = Num (1/2)" by (simp add: constructorGenre_def)
  moreover have "\<not> jle (Num (1/8))
      (note_duration (notesOf (generateMelody halfDraws constructorGenre) ! 0))"
    by (simp only: constructorGenre_first_duration jle_NaN_right not_False_eq_True)
  moreover have "0 \<le> topDraws 4 \<and> topDraws 4 < 1" by (simp add: topDraws_def)
  ultimately show ?thesis using topDraws_velocity by (simp only: simp_thms)
qed

lemma resolvedScale_Am:
  "resolvedScale ''Am'' = Own [69, 71, 72, 74, 76, 77, 79, 81]"
  by (simp add: resolvedScale_def getProp_def orElse_def scalePatterns_def)

lemma resolvedSettings_ambient:
  "resolvedSettings ''ambient'' = Own \<lparr>jumpRange = Num 2, rhythmVariety = lit (2/10)\<rparr>"
  by (simp add: resolvedSettings_def getProp_def orElse_def genreSettings_def)

lemma small_numeral_int:
  "(numeral w :: int) < 2 ^ 52 \<Longrightarrow> \<exists>m::int. (numeral w :: real) = of_int m \<and> \<bar>m\<bar> < 2 ^ 52"
  by (intro exI [of _ "numeral w"]) simp

lemma ambient_pitches:
  assumes "generateMelody u ambientScenario = Inr m"
  shows "\<forall>n\<in>set (notes m). \<exists>x\<in>{69, 71, 72, 74, 76, 77, 79, 81}.
           pitch n = Num x \<or> pitch n = Num (x + 12)"
proof -
  let ?xs = "[69, 71, 72, 74, 76, 77, 79, 81] :: real list"
  let ?e = "\<lparr>jumpRange = Num 2, rhythmVariety = lit (2/10)\<rparr>"
  have sc: "resolvedScale (key ambientScenario) = Own ?xs"
    by (simp add: ambientScenario_def resolvedScale_Am)
  from generateMelody_own [OF sc, of u] assms obtain lp where
    "steps u (Own ?xs) (resolvedSettings (genre ambientScenario)) (creativity ambientScenario)
        1 (Num 0) lp (notes m)"
    by auto
  then have s: "steps u (Own ?xs) (Own ?e) (Num (1/2)) 1 (Num 0) lp (notes m)"
    by (simp add: ambientScenario_def resolvedSettings_ambient)
  have ints: "\<forall>x\<in>set ?xs. \<exists>m::int. x = of_int m \<and> \<bar>m\<bar> < 2 ^ 52"
    by (simp add: small_numeral_int)
  have "\<forall>n\<in>set (notes m). \<exists>x\<in>set ?xs. pitch n = Num x \<or> pitch n = Num (x + 12)"
  proof (rule steps_forall [OF s])
    fix k t lp n lp'
    assume "noteStep u (Own ?xs) (Own ?e) (Num (1/2)) k t lp = Inr (n, lp')"
    then show "\<exists>x\<in>set ?xs. pitch n = Num x \<or> pitch n = Num (x + 12)"
      by (rule pitch_in_scale [OF _ _ ints, rotated -1]) simp_all
  qed
  then show ?thesis by simp
qed

text \<open>
  C6: for genre ambient, creativity 0.5, tempo 90, key Am and duration 8, whatever the draws,
  the generator returns a melody of exactly 32 notes whose first note is at time 0 and whose
  pitches are all elements of \<open>{69, 71, 72, 74, 76, 77, 79, 81}\<close> or such an element plus 12.
\<close>

theorem C6_ambient_scenario:
  "\<exists>m. generateMelody u ambientScenario = Inr m
       \<and> length (notes m) = 32
       \<and> time (hd (notes m)) = Num 0
       \<and> (\<forall>n\<in>set (notes m). \<exists>x\<in>{69, 71, 72, 74, 76, 77, 79, 81}.
             pitch n = Num x \<or> pitch n = Num (x + 12))"
proof -
  obtain m where m: "generateMelody u ambientScenario = Inr m"
    using generateMelody_returns [of ambientScenario u] by (auto simp: ambientScenario_def)
  have len: "length (notes m) = 8 * 4"
    by (rule generateMelody_length [OF m]) (simp_all add: ambientScenario_def round64_numeral)
  then have "notes m \<noteq> []" by auto
  from generateMelody_first_time [OF m this] len ambient_pitches [OF m] m
  show ?thesis by auto
qed

text \<open>
  With every draw 0.5: 32 notes, the first at time 0 with a pitch of the scale or one octave
  above.
\<close>

theorem C6_ambient_scenario_witness:
  "\<exists>m. generateMelody halfDraws ambientScenario = Inr m
       \<and> length (notes m) = 32
       \<and> time (hd (notes m)) = Num 0
       \<and> (\<exists>x\<in>{69, 71, 72, 74, 76, 77, 79, 81}.
             pitch (hd (notes m)) = Num x \<or> pitch (hd (notes m)) = Num (x + 12))"
proof -
  from C6_ambient_scenario [of halfDraws] obtain m where
    m: "generateMelody halfDraws ambientScenario = Inr m" "length (notes m) = 32"
       "time (hd (notes m)) = Num 0"
       "\<forall>n\<in>set (notes m). \<exists>x\<in>{69, 71, 72, 74, 76, 77, 79, 81}.
             pitch n = Num x \<or> pitch n = Num (x + 12)"
    by blast
  from m(2) have "hd (notes m) \<in> set (notes m)" by (cases "notes m") simp_all
  with m(4) have "\<exists>x\<in>{69, 71, 72, 74, 76, 77, 79, 81}.
             pitch (hd (notes m)) = Num x \<or> pitch (hd (notes m)) = Num (x + 12)" by blast
  with m(1,2,3) show ?thesis by blast
qed

lemma generateMelody_fallback:
  assumes "resolvedScale (key p) = resolvedScale (key q)"
    and "resolvedSettings (genre p) = resolvedSettings (genre q)"
    and "creativity p = creativity q" and "duration p = duration q"
  shows "notesOf (generateMelody u p) = notesOf (generateMelody u q)"
    and "(\<exists>e. generateMelody u p = Inl e) = (\<exists>e. generateMelody u q = Inl e)"
  by (auto simp: generateMelody_unfold notesOf_def assms split: sum.splits)

lemma unknown_key_resolves_to_C:
  assumes "k \<notin> fst ` set scalePatterns" and "k \<notin> set objectPrototypeNames"
  shows "resolvedScale k = resolvedScale ''C''"
proof -
  have "map_of scalePatterns k = None" using assms(1) by (simp add: map_of_eq_None_iff)
  then have "getProp scalePatterns k = Undefined" using assms(2) by (simp add: getProp_def)
  moreover have "getProp scalePatterns ''C'' = Own [60, 62, 64, 65, 67, 69, 71, 72]"
    by (simp add: getProp_def scalePatterns_def)
  ultimately show ?thesis by (simp add: resolvedScale_def orElse_def)
qed

lemma unknown_genre_resolves_to_classical:
  assumes "g \<notin> fst ` set genreSettings" and "g \<notin> set objectPrototypeNames"
  shows "resolvedSettings g = resolvedSettings ''classical''"
proof -
  have "map_of genreSettings g = None" using assms(1) by (simp add: map_of_eq_None_iff)
  then have "getProp genreSettings g = Undefined" using assms(2) by (simp add: getProp_def)
  moreover have "getProp genreSettings ''classical''
      = Own \<lparr>jumpRange = Num 3, rhythmVariety = lit (3/10)\<rparr>"
    by (simp add: getProp_def genreSettings_def)
  ultimately show ?thesis by (simp add: resolvedSettings_def orElse_def)
qed

lemma round64_4: "round64 4 = 4" by (simp add: round64_numeral)

text \<open>
  C7 (unknown tags fall back to classical and C, and raise no error) does not hold of the
  program: \<open>"constructor"\<close> is in no table, yet \<open>scalePatterns["constructor"]\<close> is the
  inherited function, \<open>||\<close> keeps it, and \<open>scale.indexOf\<close> throws a \<open>TypeError\<close>, where key C
  returns a melody. The fallback itself is \<open>unknown_key_resolves_to_C\<close> and
  \<open>unknown_genre_resolves_to_classical\<close>: it works for every tag that is neither listed nor
  inherited.
\<close>

theorem C7_inherited_key_throws:
  "generateMelody u constructorKey = Inl TypeError
   \<and> (\<exists>m. generateMelody u (constructorKey\<lparr>key := ''C''\<rparr>) = Inr m)"
proof -
  have k: "key constructorKey \<in> set objectPrototypeNames"
    by (simp add: constructorKey_def objectPrototypeNames_def)
  have "jlt (Num 0) (jmul (duration constructorKey) (Num 4))"
    by (simp add: constructorKey_def round64_4)
  with generateMelody_inherited [OF k, of u]
  have "generateMelody u constructorKey = Inl TypeError" by simp
  moreover have "\<exists>m. generateMelody u (constructorKey\<lparr>key := ''C''\<rparr>) = Inr m"
    by (rule generateMelody_returns) simp
  ultimately show ?thesis by blast
qed

lemma generateMelody_nonpositive:
  assumes "duration p = Num d" "d \<le> 0"
  shows "generateMelody u p =
           Inr \<lparr>notes = [], melody_tempo = tempo p, melody_key = key p, melody_genre = genre p\<rparr>"
proof -
  have "round64 (d * 4) \<le> round64 0" using assms(2) by (intro round64_mono) simp
  then have nc: "\<not> jlt (Num 0) (jmul (duration p) (Num 4))"
    by (simp add: assms(1) round64_zero)
  show ?thesis
  proof (cases "key p \<in> set objectPrototypeNames")
    case True
    from generateMelody_inherited [OF True, of u] nc show ?thesis by simp
  next
    case False
    from resolvedScale_own [OF False] obtain xs where xs: "resolvedScale (key p) = Own xs" by blast
    obtain lp where lp: "middleOf (Own xs) = Inr lp" using middleOf_Own by blast
    from nc have "genLoop u (Own xs) (resolvedSettings (genre p)) (creativity p)
        (jmul (duration p) (Num 4)) 0 1 (Num 0) lp [] = Inr []"
      by (intro genLoop_skip) simp
    with xs lp show ?thesis by (simp add: generateMelody_unfold)
  qed
qed

lemma generateMelody_NaN_duration:
  assumes "duration p = NaN"
  shows "generateMelody u p =
           Inr \<lparr>notes = [], melody_tempo = tempo p, melody_key = key p, melody_genre = genre p\<rparr>"
proof -
  have nc: "\<not> jlt (Num 0) (jmul (duration p) (Num 4))" by (simp add: assms)
  show ?thesis
  proof (cases "key p \<in> set objectPrototypeNames")
    case True
    from generateMelody_inherited [OF True, of u] nc show ?thesis by simp
  next
    case False
    from resolvedScale_own [OF False] obtain xs where xs: "resolvedScale (key p) = Own xs" by blast
    obtain lp where lp: "middleOf (Own xs) = Inr lp" using middleOf_Own by blast
    from nc have "genLoop u (Own xs) (resolvedSettings (genre p)) (creativity p)
        (jmul (duration p) (Num 4)) 0 1 (Num 0) lp [] = Inr []"
      by (intro genLoop_skip) simp
    with xs lp show ?thesis by (simp add: generateMelody_unfold)
  qed
qed

lemma round64_half: "round64 (1/2) = 1/2"
  using round64_exact [of 1 "- 1"] by (simp add: powr_minus_divide)

lemma round64_2: "round64 2 = 2" by (simp add: round64_numeral)

text \<open>
  C8 (total: no throw for out-of-range creativity or duration) does not hold of the program
  for the same reason: with creativity 5 and duration 0.5 under the key \<open>"constructor"\<close> the
  generator throws. What holds is \<open>generateMelody_returns\<close> (a melody for every key that is
  not inherited, whatever finite or \<open>NaN\<close> creativity and duration are given) and \<open>generateMelody_nonpositive\<close> (an
  empty melody with the metadata copied for a duration \<open><= 0\<close>, under every key).
\<close>

theorem C8_out_of_range_throws:
  "generateMelody u outOfRange = Inl TypeError"
proof -
  have k: "key outOfRange \<in> set objectPrototypeNames"
    by (simp add: outOfRange_def objectPrototypeNames_def)
  have "jlt (Num 0) (jmul (duration outOfRange) (Num 4))"
    by (simp add: outOfRange_def round64_2)
  with generateMelody_inherited [OF k, of u] show ?thesis by simp
qed

section \<open>Playback and the two versions: results\<close>

text \<open>
  C9: with no output target, both versions of playback return at once, without an error and
  without any request to the audio interface: no context, no voice, no timer.
\<close>

theorem C9_playMIDI_null:
  "playMIDI ctx melody None = Inr [] \<and> playMIDI_001 melody None = Inr []"
  by (simp add: playMIDI_def playMIDI_001_def)

lemma scalePatterns_001_eq: "scalePatterns_001 = scalePatterns"
  unfolding scalePatterns_001_def scalePatterns_def ..

lemma genreSettings_001_eq: "genreSettings_001 = genreSettings"
  unfolding genreSettings_001_def genreSettings_def ..

lemma noteStep_001_eq: "noteStep_001 u sc st c k t lp = noteStep u sc st c k t lp"
  unfolding noteStep_001_def noteStep_def ..

declare genLoop_001.simps [simp del]

lemma genLoop_001_eq:
  "genLoop_001 u sc st c nc i k t lp acc = genLoop u sc st c nc i k t lp acc"
proof (induction u sc st c nc i k t lp acc rule: genLoop.induct)
  case (1 u sc st c nc i k t lp acc)
  show ?case
  proof (cases "jlt (Num (real i)) nc")
    case False
    then show ?thesis
      by (simp add: genLoop.simps [of u sc st c nc i] genLoop_001.simps [of u sc st c nc i])
  next
    case True
    show ?thesis
    proof (cases "noteStep u sc st c k t lp")
      case (Inl e)
      with True show ?thesis
        by (simp add: genLoop.simps [of u sc st c nc i] genLoop_001.simps [of u sc st c nc i]
            noteStep_001_eq)
    next
      case (Inr r)
      obtain n lp' where r: "r = (n, lp')" by (cases r)
      from "1.IH" [OF True Inr r [symmetric]] True Inr r show ?thesis
        by (simp add: genLoop.simps [of u sc st c nc i] genLoop_001.simps [of u sc st c nc i]
            noteStep_001_eq)
    qed
  qed
qed

lemma generateMelody_001_eq: "generateMelody_001 u p = generateMelody u p"
  unfolding generateMelody_001_def generateMelody_def scalePatterns_001_eq genreSettings_001_eq
    genLoop_001_eq ..

text \<open>
  C10: the two versions of the generator return the same outcome for the same parameters and
  the same stream of draws (the same notes, tempo, key and genre, or the same error).
\<close>

theorem C10_versions_agree:
  "generateMelody_001 u p = generateMelody u p"
  by (rule generateMelody_001_eq)

section \<open>The container encoder: results\<close>

lemma createSimpleMIDI_bytes:
  "createSimpleMIDI m =
     Inr [0x4D, 0x54, 0x68, 0x64, 0x00, 0x00, 0x00, 0x06, 0x00, 0x00, 0x00, 0x01, 0x00, 0x60,
          0x4D, 0x54, 0x72, 0x6B, 0x00, 0x00, 0x00, 0x20, 0x00, 0xFF, 0x2F, 0x00]"
  by (simp add: createSimpleMIDI_def uint8_set_def)

lemma createSimpleMIDI_001_bytes:
  "createSimpleMIDI_001 m =
     Inr [0x4D, 0x54, 0x68, 0x64, 0x00, 0x00, 0x00, 0x06, 0x00, 0x00, 0x00, 0x01, 0x00, 0x60,
          0x4D, 0x54, 0x72, 0x6B, 0x00, 0x00, 0x00, 0x20, 0x00, 0xFF, 0x2F, 0x00]"
  by (simp add: createSimpleMIDI_001_def uint8_set_def)

text \<open>
  C3, as the program has it: for every melody, also one without notes, both versions of the
  encoder return a buffer of exactly 26 bytes, the 14-byte header block followed by a
  12-byte track block (the chunk tag, the declared length \<open>0x20\<close> and the end-of-track
  event).
\<close>

theorem C3_encoder_length_26:
  "(\<exists>bytes. createSimpleMIDI m = Inr bytes \<and> length bytes = 26 \<and>
       take 14 bytes = [0x4D, 0x54, 0x68, 0x64, 0x00, 0x00, 0x00, 0x06, 0x00, 0x00, 0x00, 0x01, 0x00, 0x60] \<and>
       drop 14 bytes = [0x4D, 0x54, 0x72, 0x6B, 0x00, 0x00, 0x00, 0x20, 0x00, 0xFF, 0x2F, 0x00])
   \<and> createSimpleMIDI_001 m = createSimpleMIDI m"
  by (simp add: createSimpleMIDI_bytes createSimpleMIDI_001_bytes)

text \<open>
  C3 as stated (a buffer of exactly 32 bytes) fails: for the melody without notes the
  buffer is not one of 32 bytes.
\<close>

theorem C3_encoder_length_32_counterexample:
  "map_sum id length
     (createSimpleMIDI \<lparr>notes = [], melody_tempo = Num 120, melody_key = ''C'',
        melody_genre = ''classical''\<rparr>) \<noteq> Inr 32"
  by (simp add: createSimpleMIDI_bytes)

text \<open>
  C4: the encoder returns the same bytes for every two melodies, whatever their notes,
  tempo, key and genre; this holds for both versions, and across them.
\<close>

theorem C4_encoder_ignores_melody:
  "createSimpleMIDI m1 = createSimpleMIDI m2 \<and> createSimpleMIDI_001 m1 = createSimpleMIDI_001 m2
   \<and> createSimpleMIDI m1 = createSimpleMIDI_001 m2"
  by (simp add: createSimpleMIDI_bytes createSimpleMIDI_001_bytes)

end
